theory Spec2Isabelle
  imports Complex_Main "HOL-Library.Sublist"
begin

section \<open>DORA metrics from build timelines: a model of \<open>config.py\<close>\<close>

text \<open>
  The program reads builds and their timelines from a pipeline server, classifies every
  build (swap job succeeded: a deployment; validate job failed or rollback job succeeded:
  a failure), resolves commit times and computes four metric tables. The model follows
  the source function by function. Calls that leave the program (HTTP requests) and
  functions of the Python standard library that the source only calls
  (\<open>datetime.fromisoformat\<close>, \<open>isoformat\<close>, \<open>urlparse\<close>, float arithmetic) are
  parameters of the model; every exception the source can meet is a value of \<open>exn\<close>.
\<close>

subsection \<open>Exceptions\<close>

text \<open>
  \<open>HTTPError\<close>, \<open>ConnectionError\<close>, \<open>Timeout\<close> and \<open>JSONDecodeError\<close> are the
  subclasses of \<open>requests.RequestException\<close> that a request can raise; \<open>ValueError\<close> is
  what \<open>datetime.fromisoformat\<close> raises on a string it cannot parse, \<open>ZeroDivisionError\<close>
  what \<open>/\<close> raises on a zero divisor.
\<close>

datatype exn =
  HTTPError nat | ConnectionError | Timeout | JSONDecodeError | ValueError | ZeroDivisionError

fun is_HTTPError :: "exn \<Rightarrow> bool" where
  "is_HTTPError (HTTPError _) = True"
| "is_HTTPError _ = False"

fun is_RequestException :: "exn \<Rightarrow> bool" where
  "is_RequestException (HTTPError _) = True"
| "is_RequestException ConnectionError = True"
| "is_RequestException Timeout = True"
| "is_RequestException JSONDecodeError = True"
| "is_RequestException _ = False"

subsection \<open>Strings\<close>

text \<open>
  Strings are byte strings; \<open>str.lower\<close> is modelled on ASCII letters (names of jobs,
  results and repository types are ASCII). \<open>str_contains sub s\<close> is Python's
  \<open>sub in s\<close>.
\<close>

definition char_lower :: "char \<Rightarrow> char" where
  "char_lower c =
     (case map_of (zip ''ABCDEFGHIJKLMNOPQRSTUVWXYZ'' ''abcdefghijklmnopqrstuvwxyz'') c of
        None \<Rightarrow> c
      | Some l \<Rightarrow> l)"

definition lower :: "string \<Rightarrow> string" where
  "lower s = map char_lower s"

fun str_contains :: "string \<Rightarrow> string \<Rightarrow> bool" where
  "str_contains sub [] = (sub = [])"
| "str_contains sub (c # cs) = (prefix sub (c # cs) \<or> str_contains sub cs)"

text \<open>\<open>x or ""\<close> on an optional string, and Python truthiness of an optional string.\<close>

definition or_empty :: "string option \<Rightarrow> string" where
  "or_empty v = (case v of None \<Rightarrow> [] | Some s \<Rightarrow> s)"

definition truthy :: "string option \<Rightarrow> bool" where
  "truthy v = (case v of None \<Rightarrow> False | Some s \<Rightarrow> s \<noteq> [])"

text \<open>\<open>a or b\<close> on optional strings: the first truthy operand, else the second.\<close>

definition py_or :: "string option \<Rightarrow> string option \<Rightarrow> string option" where
  "py_or a b = (if truthy a then a else b)"

subsection \<open>Time helpers\<close>

text \<open>
  A value of \<open>pydatetime\<close> is what \<open>datetime.fromisoformat\<close> returns: a wall-clock
  reading in microseconds and, for an aware datetime, its offset from UTC in
  microseconds (\<open>None\<close>: a naive datetime). A value of \<open>utc_time\<close> stands for an aware
  datetime whose tzinfo is \<open>timezone.utc\<close>, given by its microseconds since the epoch:
  Python compares and subtracts aware datetimes by these instants.
\<close>

record pydatetime =
  wall_us :: int
  utcoffset_us :: "int option"

type_synonym utc_time = int

text \<open>
  The standard-library functions the source calls. \<open>fromisoformat\<close> is \<open>None\<close> where
  Python raises \<open>ValueError\<close>; \<open>local_utcoffset\<close> is the offset of the system's local
  zone, which \<open>astimezone\<close> assumes for a naive datetime; \<open>isoformat\<close> renders an aware
  UTC datetime; \<open>urlparse_path\<close> is \<open>urlparse(u).path\<close>.
\<close>

record pylib =
  fromisoformat :: "string \<Rightarrow> pydatetime option"
  local_utcoffset :: "int \<Rightarrow> int"
  isoformat :: "utc_time \<Rightarrow> string"
  urlparse_path :: "string \<Rightarrow> string"

text \<open>\<open>dt.astimezone(timezone.utc)\<close>: the same instant, read in UTC.\<close>

definition astimezone_utc :: "pylib \<Rightarrow> pydatetime \<Rightarrow> utc_time" where
  "astimezone_utc L d =
     wall_us d - (case utcoffset_us d of None \<Rightarrow> local_utcoffset L (wall_us d) | Some off \<Rightarrow> off)"

text \<open>\<open>dt_str.replace("Z", "+00:00")\<close>: every occurrence is replaced.\<close>

definition replace_Z :: "string \<Rightarrow> string" where
  "replace_Z s = concat (map (\<lambda>c. if c = CHR ''Z'' then ''+00:00'' else [c]) s)"

text \<open>
  \<^verbatim>\<open>
  def utc(dt_str):
      if not dt_str:
          return None
      return datetime.fromisoformat(dt_str.replace("Z", "+00:00")).astimezone(timezone.utc)
  \<close>
\<close>

definition utc :: "pylib \<Rightarrow> string option \<Rightarrow> exn + utc_time option" where
  "utc L dt_str =
     (if \<not> truthy dt_str then Inr None
      else case fromisoformat L (replace_Z (or_empty dt_str)) of
             None \<Rightarrow> Inl ValueError
           | Some d \<Rightarrow> Inr (Some (astimezone_utc L d)))"

text \<open>\<open>fmtiso(dt) = dt.astimezone(timezone.utc).isoformat()\<close>, on a datetime already in UTC.\<close>

definition fmtiso :: "pylib \<Rightarrow> utc_time \<Rightarrow> string" where
  "fmtiso L dt = isoformat L dt"

text \<open>
  \<open>day_key\<close>: the UTC calendar date of an instant. The source renders it as
  \<open>YYYY-MM-DD\<close>; the model keeps the day number since the epoch, which the rendering
  maps one-to-one and in the same order.
\<close>

definition day_key :: "utc_time \<Rightarrow> int" where
  "day_key dt_utc = dt_utc div 86400000000"

subsection \<open>Timeline records and builds\<close>

text \<open>
  A timeline record as the JSON gives it; \<open>None\<close> is a key that is absent (for
  \<open>result\<close> and \<open>finishTime\<close> also a null, which the source treats alike).
\<close>

record timeline_record =
  rec_type :: "string option"
  rec_name :: "string option"
  rec_result :: "string option"
  rec_finishTime :: "string option"

record repository =
  repo_type :: "string option"
  repo_id :: "string option"
  repo_name :: "string option"
  repo_url :: "string option"
  repo_properties :: "(string \<times> string) list"

record build =
  build_id :: int
  sourceVersion :: "string option"
  build_repository :: "repository option"
  definition_id :: "int option"

record event =
  ev_buildId :: int
  ev_when :: utc_time

record run_state =
  deployments :: "event list"
  failures :: "event list"

text \<open>What the program prints under \<open>--verbose\<close>, one value per \<open>print\<close>.\<close>

datatype log_event =
    LeadNoSourceVersion int
  | LeadMissingAzureId int
  | LeadAdoLookupFailed string exn
  | LeadCannotDetermineRepo int "string list"
  | LeadGitHubStatus nat string
  | LeadGitHubLookupFailed exn
  | LeadUnknownRepoType string int
  | DeployTrace "int option" "string option" int string "string option" "string option" "string option"

text \<open>
  \<^verbatim>\<open>
  def has_job(sub):
      sub = sub.lower()
      return next((r for r in recs if r.get("type") == "Job"
                   and sub in (r.get("name","").lower())), None)
  \<close>
\<close>

definition record_named :: "string \<Rightarrow> string \<Rightarrow> timeline_record \<Rightarrow> bool" where
  "record_named kind sub r =
     (rec_type r = Some kind \<and> str_contains (lower sub) (lower (or_empty (rec_name r))))"

definition has_job :: "timeline_record list \<Rightarrow> string \<Rightarrow> timeline_record option" where
  "has_job recs sub = find (record_named ''Job'' sub) recs"

definition has_stage :: "timeline_record list \<Rightarrow> string \<Rightarrow> timeline_record option" where
  "has_stage recs name_sub = find (record_named ''Stage'' name_sub) recs"

text \<open>\<open>job and (job.get("result") or "").lower() == wanted\<close>.\<close>

definition job_result_is :: "timeline_record option \<Rightarrow> string \<Rightarrow> bool" where
  "job_result_is job wanted =
     (case job of None \<Rightarrow> False | Some r \<Rightarrow> lower (or_empty (rec_result r)) = wanted)"

definition job_finishTime :: "timeline_record option \<Rightarrow> string option" where
  "job_finishTime job = (case job of None \<Rightarrow> None | Some r \<Rightarrow> rec_finishTime r)"

text \<open>
  Lines 285 to 289 of the loop body: the flag \<open>failed_change\<close> and the time \<open>fail_t\<close>.
  \<^verbatim>\<open>
  failed_change, fail_t = False, None
  if validate_swap and (validate_swap.get("result") or "").lower() == "failed":
      failed_change, fail_t = True, utc(validate_swap.get("finishTime"))
  elif rollback and (rollback.get("result") or "").lower() == "succeeded":
      failed_change, fail_t = True, utc(rollback.get("finishTime"))
  \<close>
\<close>

definition failed_change_of ::
  "pylib \<Rightarrow> timeline_record option \<Rightarrow> timeline_record option \<Rightarrow> exn + (bool \<times> utc_time option)" where
  "failed_change_of L validate_swap rollback =
     (if job_result_is validate_swap ''failed'' then
        (case utc L (job_finishTime validate_swap) of Inl e \<Rightarrow> Inl e | Inr t \<Rightarrow> Inr (True, t))
      else if job_result_is rollback ''succeeded'' then
        (case utc L (job_finishTime rollback) of Inl e \<Rightarrow> Inl e | Inr t \<Rightarrow> Inr (True, t))
      else Inr (False, None))"

text \<open>\<open>if failed_change and fail_t: failures.append({"buildId": bid, "when": fail_t})\<close>.\<close>

definition append_failure :: "int \<Rightarrow> bool \<times> utc_time option \<Rightarrow> run_state \<Rightarrow> run_state" where
  "append_failure bid ft st =
     (case ft of
        (True, Some t) \<Rightarrow> st\<lparr>failures := failures st @ [\<lparr>ev_buildId = bid, ev_when = t\<rparr>]\<rparr>
      | _ \<Rightarrow> st)"

text \<open>The \<open>[DEPLOY]\<close> trace of lines 277 to 282, printed only under \<open>verbose\<close>.\<close>

definition deploy_trace ::
  "pylib \<Rightarrow> bool \<Rightarrow> (int option \<Rightarrow> string option) \<Rightarrow> build \<Rightarrow> utc_time \<Rightarrow> log_event list" where
  "deploy_trace L verbose def_names b dep_time =
     (if verbose then
        [DeployTrace (definition_id b) (def_names (definition_id b)) (build_id b) (fmtiso L dep_time)
           (case build_repository b of None \<Rightarrow> None | Some r \<Rightarrow> repo_type r)
           (case build_repository b of None \<Rightarrow> None | Some r \<Rightarrow> repo_name r)
           (sourceVersion b)]
      else [])"

text \<open>
  The body of the loop over the builds (lines 253 to 291), given the records of the
  build's timeline. The failure block stands inside the test of the swap job's result
  and after, not inside, the test of \<open>dep_time\<close>, as the source's indentation has it.
  The result is the trace printed and either the exception raised or the updated state.
\<close>

definition process_build ::
  "pylib \<Rightarrow> bool \<Rightarrow> (int option \<Rightarrow> string option) \<Rightarrow> build \<Rightarrow> timeline_record list \<Rightarrow> run_state
     \<Rightarrow> log_event list \<times> (exn + run_state)" where
  "process_build L verbose def_names b recs st =
     (let bid = build_id b;
          swap = has_job recs ''swap'';
          validate_swap = has_job recs ''validate'';
          rollback = has_job recs ''rollback''
      in if job_result_is swap ''succeeded'' then
           (case utc L (job_finishTime swap) of
              Inl e \<Rightarrow> ([], Inl e)
            | Inr dep_time \<Rightarrow>
                (let (lg, st1) =
                       (case dep_time of
                          None \<Rightarrow> ([], st)
                        | Some t \<Rightarrow>
                            (deploy_trace L verbose def_names b t,
                             st\<lparr>deployments := deployments st @ [\<lparr>ev_buildId = bid, ev_when = t\<rparr>]\<rparr>))
                 in case failed_change_of L validate_swap rollback of
                      Inl e \<Rightarrow> (lg, Inl e)
                    | Inr ft \<Rightarrow> (lg, Inr (append_failure bid ft st1))))
         else ([], Inr st))"

subsection \<open>The build server and \<open>ADO.list_builds\<close>\<close>

text \<open>
  The answers of the servers are parameters: \<open>get_builds_page tok\<close> is what
  \<open>_get("/_apis/build/builds", params)\<close> returns for this run's query when
  \<open>params\<close> holds the continuation token \<open>tok\<close> (\<open>None\<close>: no token in the query),
  or the exception it raises. \<open>github_get url token\<close> is \<open>requests.get\<close> on the
  commit URL with the optional bearer token.
\<close>

record builds_page =
  page_value :: "build list"
  page_continuationToken :: "string option"

record commit_doc =
  author_date :: "string option"
  committer_date :: "string option"

record gh_response =
  status_code :: nat
  json_commit :: "exn + commit_doc"

record env =
  get_builds_page :: "string option \<Rightarrow> exn + builds_page"
  get_timeline :: "int \<Rightarrow> exn + timeline_record list"
  get_ado_commit :: "string \<Rightarrow> string \<Rightarrow> exn + commit_doc"
  github_get :: "string \<Rightarrow> string option \<Rightarrow> exn + gh_response"
  get_definition :: "int \<Rightarrow> exn + string option"

text \<open>
  \<^verbatim>\<open>
  builds = []
  cont = None
  while True:
      if cont:
          params["continuationToken"] = cont
      j = self._get("/_apis/build/builds", params)
      builds.extend(j.get("value", []))
      cont = j.get("continuationToken")
      if not cont:
          break
  return builds
  \<close>
  The loop ends only when the server sends a page without a token, so it is a partial
  function: \<open>None\<close> is a loop that never ends.
\<close>

partial_function (option) list_builds_loop ::
  "env \<Rightarrow> string option \<Rightarrow> build list \<Rightarrow> (exn + build list) option" where
  "list_builds_loop E cont builds =
     (case get_builds_page E (if truthy cont then cont else None) of
        Inl e \<Rightarrow> Some (Inl e)
      | Inr j \<Rightarrow>
          (if truthy (page_continuationToken j)
           then list_builds_loop E (page_continuationToken j) (builds @ page_value j)
           else Some (Inr (builds @ page_value j))))"

definition list_builds :: "env \<Rightarrow> (exn + build list) option" where
  "list_builds E = list_builds_loop E None []"

subsection \<open>GitHub repository helpers\<close>

text \<open>
  The regular expression \<open>/repos/([^/]+/[^/]+)\<close> matched at the start of a string: the
  two runs of characters other than \<open>/\<close> are greedy and a \<open>/\<close> must follow the first,
  so each is the whole run. The result is group 1.
\<close>

definition not_slash :: "char \<Rightarrow> bool" where
  "not_slash c = (c \<noteq> CHR ''/'')"

definition match_repos_at :: "string \<Rightarrow> string option" where
  "match_repos_at s =
     (if prefix ''/repos/'' s then
        (let r = drop 7 s; owner = takeWhile not_slash r; r' = dropWhile not_slash r
         in if owner \<noteq> [] \<and> r' \<noteq> [] then
              (let name = takeWhile not_slash (tl r')
               in if name \<noteq> [] then Some (owner @ ''/'' @ name) else None)
            else None)
      else None)"

text \<open>\<open>re.search(r"/repos/([^/]+/[^/]+)", s)\<close>: the leftmost position that matches.\<close>

fun search_repos :: "string \<Rightarrow> string option" where
  "search_repos [] = None"
| "search_repos (c # cs) =
     (case match_repos_at (c # cs) of Some g \<Rightarrow> Some g | None \<Rightarrow> search_repos cs)"

text \<open>\<open>s.strip("/")\<close>, \<open>s.rstrip("/")\<close>, \<open>s.endswith(suf)\<close>.\<close>

definition rstrip_slash :: "string \<Rightarrow> string" where
  "rstrip_slash s = rev (dropWhile (\<lambda>c. c = CHR ''/'') (rev s))"

definition strip_slash :: "string \<Rightarrow> string" where
  "strip_slash s = rstrip_slash (dropWhile (\<lambda>c. c = CHR ''/'') s)"

definition endswith :: "string \<Rightarrow> string \<Rightarrow> bool" where
  "endswith s suf = prefix (rev suf) (rev s)"

text \<open>
  \<open>for k in keys: v = get(k); if v and "/" in v: return v\<close>, the loop of lines 116 to
  119 and of lines 132 to 135.
\<close>

fun first_with_slash :: "(string \<Rightarrow> string option) \<Rightarrow> string list \<Rightarrow> string option" where
  "first_with_slash get [] = None"
| "first_with_slash get (k # ks) =
     (if truthy (get k) \<and> str_contains ''/'' (or_empty (get k)) then get k
      else first_with_slash get ks)"

definition repo_get :: "repository \<Rightarrow> string \<Rightarrow> string option" where
  "repo_get repo k =
     (if k = ''type'' then repo_type repo
      else if k = ''id'' then repo_id repo
      else if k = ''name'' then repo_name repo
      else if k = ''url'' then repo_url repo
      else None)"

text \<open>The empty dictionary, which \<open>build.get("repository") or {}\<close> gives for a build without one.\<close>

definition empty_repository :: repository where
  "empty_repository =
     \<lparr>repo_type = None, repo_id = None, repo_name = None, repo_url = None, repo_properties = []\<rparr>"

text \<open>The steps of \<open>extract_owner_repo\<close>, in the order of the source.\<close>

definition full_name_step :: "repository \<Rightarrow> string option" where
  "full_name_step repo =
     first_with_slash (map_of (repo_properties repo))
       [''fullName'', ''full_name'', ''repoFullName'', ''repositoryFullName'']"

definition api_url_step :: "repository \<Rightarrow> string option" where
  "api_url_step repo =
     (let api_url = py_or (map_of (repo_properties repo) ''apiUrl'') (repo_get repo ''url'')
      in if truthy api_url then search_repos (or_empty api_url) else None)"

definition clone_url_step :: "pylib \<Rightarrow> repository \<Rightarrow> string option" where
  "clone_url_step L repo =
     (let clone = map_of (repo_properties repo) ''cloneUrl''
      in if truthy clone then
           (let path = strip_slash (urlparse_path L (or_empty clone));
                path' = (if endswith path ''.git'' then take (length path - 4) path else path)
            in if str_contains ''/'' path' then Some path' else None)
         else None)"

definition name_id_step :: "repository \<Rightarrow> string option" where
  "name_id_step repo = first_with_slash (repo_get repo) [''name'', ''id'']"

definition extract_owner_repo :: "pylib \<Rightarrow> repository \<Rightarrow> string option" where
  "extract_owner_repo L repo =
     (if repo = empty_repository then None
      else case full_name_step repo of
        Some v \<Rightarrow> Some v
      | None \<Rightarrow>
         (case api_url_step repo of
            Some g \<Rightarrow> Some g
          | None \<Rightarrow>
             (case clone_url_step L repo of
                Some p \<Rightarrow> Some p
              | None \<Rightarrow> name_id_step repo)))"

text \<open>
  \<open>re.search(r"/repos/[^/]+/[^/]+$", base)\<close>: \<open>base\<close> ends with \<open>/repos/\<close>, a run
  without \<open>/\<close>, a \<open>/\<close> and a last run without \<open>/\<close>, both runs not empty.
\<close>

definition ends_with_repos_pair :: "string \<Rightarrow> bool" where
  "ends_with_repos_pair base =
     (let rb = rev base; name = takeWhile not_slash rb; r1 = dropWhile not_slash rb
      in name \<noteq> [] \<and> r1 \<noteq> [] \<and>
         (let owner = takeWhile not_slash (tl r1); r2 = dropWhile not_slash (tl r1)
          in owner \<noteq> [] \<and> prefix (rev ''/repos/'') r2))"

text \<open>
  \<open>re.search(r"^(https?://[^/]+)/repos/([^/]+/[^/]+)", base)\<close>: groups 1 and 2.
\<close>

definition match_host_repos :: "string \<Rightarrow> (string \<times> string) option" where
  "match_host_repos base =
     (let scheme = (if prefix ''https://'' base then Some ''https://''
                    else if prefix ''http://'' base then Some ''http://'' else None)
      in case scheme of
           None \<Rightarrow> None
         | Some sch \<Rightarrow>
             (let r = drop (length sch) base; host = takeWhile not_slash r
              in if host = [] then None
                 else case match_repos_at (dropWhile not_slash r) of
                        None \<Rightarrow> None
                      | Some g \<Rightarrow> Some (sch @ host, g)))"

definition github_commit_api :: "string \<Rightarrow> string \<Rightarrow> (string \<times> string) list \<Rightarrow> string" where
  "github_commit_api owner_repo sha props =
     (let api_url = map_of props ''apiUrl'';
          fallback = ''https://api.github.com/repos/'' @ owner_repo @ ''/commits/'' @ sha
      in if truthy api_url then
           (let base = rstrip_slash (or_empty api_url)
            in if ends_with_repos_pair base then base @ ''/commits/'' @ sha
               else case match_host_repos base of
                      Some (h, g) \<Rightarrow> h @ ''/repos/'' @ g @ ''/commits/'' @ sha
                    | None \<Rightarrow> fallback)
         else fallback)"

subsection \<open>\<open>get_commit_time\<close>\<close>

text \<open>
  \<open>dt = (c.get("author", {}) or {}).get("date") or (c.get("committer", {}) or {}).get("date")\<close>
  followed by \<open>return utc(dt) if dt else None\<close>.
\<close>

definition commit_date :: "pylib \<Rightarrow> commit_doc \<Rightarrow> exn + utc_time option" where
  "commit_date L c =
     (let dt = py_or (author_date c) (committer_date c)
      in if truthy dt then utc L dt else Inr None)"

definition log_if :: "bool \<Rightarrow> log_event \<Rightarrow> log_event list" where
  "log_if verbose ev = (if verbose then [ev] else [])"

text \<open>
  The Azure Repos branch (lines 158 to 169): the \<open>try\<close> has one handler, for
  \<open>requests.HTTPError\<close>; any other exception leaves the function.
\<close>

definition azure_commit_time ::
  "pylib \<Rightarrow> env \<Rightarrow> bool \<Rightarrow> build \<Rightarrow> repository \<Rightarrow> string \<Rightarrow> log_event list \<times> (exn + utc_time option)" where
  "azure_commit_time L E verbose b repo sha =
     (let rid = repo_get repo ''id''
      in if \<not> truthy rid then (log_if verbose (LeadMissingAzureId (build_id b)), Inr None)
         else case (case get_ado_commit E (or_empty rid) sha of
                      Inl e \<Rightarrow> Inl e
                    | Inr c \<Rightarrow> commit_date L c) of
                Inl e \<Rightarrow>
                  (if is_HTTPError e then (log_if verbose (LeadAdoLookupFailed sha e), Inr None)
                   else ([], Inl e))
              | Inr t \<Rightarrow> ([], Inr t))"

text \<open>
  The GitHub branch (lines 172 to 194): the handler is for \<open>requests.RequestException\<close>;
  a status other than 200 returns \<open>None\<close>.
\<close>

definition github_commit_time ::
  "pylib \<Rightarrow> env \<Rightarrow> string option \<Rightarrow> string option \<Rightarrow> bool \<Rightarrow> build \<Rightarrow> repository \<Rightarrow> string
     \<Rightarrow> log_event list \<times> (exn + utc_time option)" where
  "github_commit_time L E gh_token gh_repo_override verbose b repo sha =
     (let owner_repo = py_or gh_repo_override (extract_owner_repo L repo)
      in if \<not> truthy owner_repo then
           (log_if verbose (LeadCannotDetermineRepo (build_id b) (map fst (repo_properties repo))),
            Inr None)
         else
           (let api_url = github_commit_api (or_empty owner_repo) sha (repo_properties repo)
            in case (case github_get E api_url (if truthy gh_token then gh_token else None) of
                       Inl e \<Rightarrow> Inl e
                     | Inr r \<Rightarrow>
                         (if status_code r = 200 then
                            (case json_commit r of
                               Inl e \<Rightarrow> Inl e
                             | Inr c \<Rightarrow> (case commit_date L c of Inl e \<Rightarrow> Inl e | Inr t \<Rightarrow> Inr (Inr t)))
                          else Inr (Inl (status_code r)))) of
                 Inl e \<Rightarrow>
                   (if is_RequestException e then (log_if verbose (LeadGitHubLookupFailed e), Inr None)
                    else ([], Inl e))
               | Inr (Inl code) \<Rightarrow> (log_if verbose (LeadGitHubStatus code api_url), Inr None)
               | Inr (Inr t) \<Rightarrow> ([], Inr t)))"

definition get_commit_time ::
  "pylib \<Rightarrow> env \<Rightarrow> string option \<Rightarrow> string option \<Rightarrow> bool \<Rightarrow> build
     \<Rightarrow> log_event list \<times> (exn + utc_time option)" where
  "get_commit_time L E gh_token gh_repo_override verbose b =
     (let sha = sourceVersion b
      in if \<not> truthy sha then (log_if verbose (LeadNoSourceVersion (build_id b)), Inr None)
         else
           (let repo = (case build_repository b of None \<Rightarrow> empty_repository | Some r \<Rightarrow> r);
                rtype = lower (or_empty (repo_get repo ''type''))
            in if str_contains ''tfs'' rtype \<or> str_contains ''azure'' rtype then
                 azure_commit_time L E verbose b repo (or_empty sha)
               else if str_contains ''github'' rtype \<or> truthy gh_repo_override then
                 github_commit_time L E gh_token gh_repo_override verbose b repo (or_empty sha)
               else (log_if verbose (LeadUnknownRepoType rtype (build_id b)), Inr None)))"

subsection \<open>Numbers and their rendering\<close>

text \<open>
  Python's floats are not modelled: the float operations the source uses are
  parameters. \<open>truediv a b\<close> is \<open>a / b\<close> on two ints with \<open>b\<close> not zero, \<open>fmul\<close> is
  \<open>*\<close> on floats, \<open>fround x n\<close> is \<open>round(x, n)\<close>, \<open>f_zero\<close> and \<open>f_hundred\<close> are the
  literals \<open>0.0\<close> and \<open>100.0\<close>.
\<close>

record 'f pyfloat =
  truediv :: "int \<Rightarrow> int \<Rightarrow> 'f"
  fmul :: "'f \<Rightarrow> 'f \<Rightarrow> 'f"
  fround :: "'f \<Rightarrow> nat \<Rightarrow> 'f"
  f_zero :: "'f"
  f_hundred :: "'f"

definition py_truediv :: "'f pyfloat \<Rightarrow> int \<Rightarrow> int \<Rightarrow> exn + 'f" where
  "py_truediv F a b = (if b = 0 then Inl ZeroDivisionError else Inr (truediv F a b))"

text \<open>
  \<open>timedelta.total_seconds()\<close> of a difference of \<open>us\<close> microseconds, as the exact
  quotient. Python returns the nearest float; below \<open>2^53\<close> microseconds (about 285
  years) truncating or rounding that float to an int gives what the exact quotient
  gives. \<open>py_int\<close> is \<open>int(x)\<close>, which truncates toward zero; \<open>py_round\<close> is
  \<open>round(x)\<close>, to the nearest integer with ties to the even one.
\<close>

definition total_seconds :: "int \<Rightarrow> rat" where
  "total_seconds us = of_int us / 1000000"

definition py_int :: "rat \<Rightarrow> int" where
  "py_int x = (if x < 0 then \<lceil>x\<rceil> else \<lfloor>x\<rfloor>)"

definition py_round :: "rat \<Rightarrow> int" where
  "py_round x =
     (let f = \<lfloor>x\<rfloor>; r = x - of_int f
      in if r < 1 / 2 then f else if 1 / 2 < r then f + 1 else if even f then f else f + 1)"

text \<open>\<open>int((a - b).total_seconds())\<close> on two aware datetimes.\<close>

definition elapsed_secs :: "utc_time \<Rightarrow> utc_time \<Rightarrow> int" where
  "elapsed_secs a b = py_int (total_seconds (a - b))"

text \<open>\<open>str(n)\<close> on an int.\<close>

fun str_of_nat :: "nat \<Rightarrow> string" where
  "str_of_nat n =
     (if n < 10 then [''0123456789'' ! n]
      else str_of_nat (n div 10) @ [''0123456789'' ! (n mod 10)])"

declare str_of_nat.simps [simp del]

definition str_of_int :: "int \<Rightarrow> string" where
  "str_of_int i = (if i < 0 then CHR ''-'' # str_of_nat (nat (- i)) else str_of_nat (nat i))"

fun join_space :: "string list \<Rightarrow> string" where
  "join_space [] = []"
| "join_space [p] = p"
| "join_space (p # q # ps) = p @ '' '' @ join_space (q # ps)"

text \<open>
  \<^verbatim>\<open>
  def human_dur(seconds: int) -> str:
      neg = seconds < 0
      s = abs(int(seconds))
      d, rem = divmod(s, 86400)
      h, rem = divmod(rem, 3600)
      m, s = divmod(rem, 60)
      parts = []
      if d: parts.append(f"{d}d")
      if h or d: parts.append(f"{h}h")
      if m or h or d: parts.append(f"{m}m")
      parts.append(f"{s}s")
      out = " ".join(parts)
      return f"-{out}" if neg else out
  \<close>
\<close>

definition human_dur :: "int \<Rightarrow> string" where
  "human_dur seconds =
     (let neg = seconds < 0;
          s = nat \<bar>seconds\<bar>;
          d = s div 86400; rem = s mod 86400;
          h = rem div 3600; rem' = rem mod 3600;
          m = rem' div 60; s' = rem' mod 60;
          parts =
            (if d \<noteq> 0 then [str_of_nat d @ ''d''] else []) @
            (if h \<noteq> 0 \<or> d \<noteq> 0 then [str_of_nat h @ ''h''] else []) @
            (if m \<noteq> 0 \<or> h \<noteq> 0 \<or> d \<noteq> 0 then [str_of_nat m @ ''m''] else []) @
            [str_of_nat s' @ ''s''];
          out = join_space parts
      in if neg then CHR ''-'' # out else out)"

subsection \<open>The metrics\<close>

text \<open>The arguments of the run that the metrics use, and the query window.\<close>

record args =
  arg_app :: string
  arg_org :: string
  arg_project :: string
  arg_github_token :: "string option"
  arg_github_repo :: "string option"
  arg_verbose :: bool
  arg_defs :: "int list"
  arg_since :: utc_time
  arg_until :: utc_time

definition run_base_url :: "args \<Rightarrow> string" where
  "run_base_url A =
     ''https://dev.azure.com/'' @ arg_org A @ ''/'' @ arg_project A @ ''/_build/results?buildId=''"

text \<open>
  \<open>def_names\<close> (lines 238 to 244): the name of each definition of the run, none where
  the request raised.
\<close>

definition def_names_of :: "env \<Rightarrow> int list \<Rightarrow> int option \<Rightarrow> string option" where
  "def_names_of E defs did =
     (case did of
        None \<Rightarrow> None
      | Some i \<Rightarrow>
          (if i \<in> set defs then (case get_definition E i of Inl _ \<Rightarrow> None | Inr nm \<Rightarrow> nm)
           else None))"

text \<open>The loop of lines 252 to 291 over the builds.\<close>

fun classify_loop ::
  "pylib \<Rightarrow> env \<Rightarrow> bool \<Rightarrow> (int option \<Rightarrow> string option) \<Rightarrow> build list \<Rightarrow> run_state
     \<Rightarrow> log_event list \<times> (exn + run_state)" where
  "classify_loop L E verbose dn [] st = ([], Inr st)"
| "classify_loop L E verbose dn (b # bs) st =
     (case get_timeline E (build_id b) of
        Inl e \<Rightarrow> ([], Inl e)
      | Inr recs \<Rightarrow>
          (case process_build L verbose dn b recs st of
             (lg, Inl e) \<Rightarrow> (lg, Inl e)
           | (lg, Inr st') \<Rightarrow>
               (case classify_loop L E verbose dn bs st' of (lg2, r) \<Rightarrow> (lg @ lg2, r))))"

text \<open>
  Deployment frequency (lines 294 to 300): the dictionary \<open>daily\<close>, in insertion
  order, each day's list sorted.
\<close>

fun setdefault_append :: "(int \<times> utc_time list) list \<Rightarrow> int \<Rightarrow> utc_time \<Rightarrow> (int \<times> utc_time list) list" where
  "setdefault_append [] k v = [(k, [v])]"
| "setdefault_append ((k', vs) # d) k v =
     (if k' = k then (k', vs @ [v]) # d else (k', vs) # setdefault_append d k v)"

definition daily_of :: "event list \<Rightarrow> (int \<times> utc_time list) list" where
  "daily_of deps =
     map (\<lambda>(k, ts). (k, sort ts))
       (foldl (\<lambda>d e. setdefault_append d (day_key (ev_when e)) (ev_when e)) [] deps)"

text \<open>
  Change failure rate (line 303):
  \<open>cfr_pct = (len(failures) / len(deployments) * 100.0) if deployments else 0.0\<close>.
\<close>

definition cfr_pct :: "'f pyfloat \<Rightarrow> event list \<Rightarrow> event list \<Rightarrow> exn + 'f" where
  "cfr_pct F fails deps =
     (if deps \<noteq> [] then
        (case py_truediv F (int (length fails)) (int (length deps)) of
           Inl e \<Rightarrow> Inl e
         | Inr q \<Rightarrow> Inr (fmul F q (f_hundred F)))
      else Inr (f_zero F))"

text \<open>The row of the change-failure-rate summary (lines 395 to 402).\<close>

record 'f cfr_row =
  cfr_app :: string
  windowStartUtc :: string
  windowEndUtc :: string
  totalDeployments :: nat
  failedChanges :: nat
  changeFailureRatePct :: 'f

definition cfr_summary :: "pylib \<Rightarrow> 'f pyfloat \<Rightarrow> args \<Rightarrow> event list \<Rightarrow> event list \<Rightarrow> 'f \<Rightarrow> 'f cfr_row" where
  "cfr_summary L F A deps fails pct =
     (let successes_sorted = sort_key ev_when deps
      in \<lparr>cfr_app = arg_app A,
          windowStartUtc = isoformat L (arg_since A),
          windowEndUtc = isoformat L (arg_until A),
          totalDeployments = length successes_sorted,
          failedChanges = length fails,
          changeFailureRatePct = fround F pct 2\<rparr>)"

text \<open>Lead time for changes (lines 306 to 332).\<close>

record 'f lead_row =
  lr_app :: string
  lr_buildId :: int
  lr_commit :: "string option"
  lr_commitTimeUtc :: string
  lr_deployTimeUtc :: string
  lr_leadTimeSeconds :: int
  lr_leadTimeHours :: 'f
  lr_leadTimeHuman :: string
  lr_runUrl :: string

text \<open>\<open>dep_by_build = {d["buildId"]: d for d in deployments}\<close>: the last entry of a build id wins.\<close>

definition dep_by_build :: "event list \<Rightarrow> int \<Rightarrow> event option" where
  "dep_by_build deps bid = find (\<lambda>d. ev_buildId d = bid) (rev deps)"

definition make_lead_row :: "pylib \<Rightarrow> 'f pyfloat \<Rightarrow> args \<Rightarrow> build \<Rightarrow> event \<Rightarrow> utc_time \<Rightarrow> 'f lead_row" where
  "make_lead_row L F A b dep ct =
     (let secs = elapsed_secs (ev_when dep) ct
      in \<lparr>lr_app = arg_app A,
          lr_buildId = build_id b,
          lr_commit = sourceVersion b,
          lr_commitTimeUtc = fmtiso L ct,
          lr_deployTimeUtc = fmtiso L (ev_when dep),
          lr_leadTimeSeconds = secs,
          lr_leadTimeHours = fround F (truediv F secs 3600) 3,
          lr_leadTimeHuman = human_dur secs,
          lr_runUrl = run_base_url A @ str_of_int (build_id b)\<rparr>)"

fun lead_loop ::
  "pylib \<Rightarrow> 'f pyfloat \<Rightarrow> env \<Rightarrow> args \<Rightarrow> event list \<Rightarrow> build list \<Rightarrow> 'f lead_row list
     \<Rightarrow> log_event list \<times> (exn + 'f lead_row list)" where
  "lead_loop L F E A deps [] rows = ([], Inr rows)"
| "lead_loop L F E A deps (b # bs) rows =
     (case dep_by_build deps (build_id b) of
        None \<Rightarrow> lead_loop L F E A deps bs rows
      | Some dep \<Rightarrow>
          (case get_commit_time L E (arg_github_token A) (arg_github_repo A) (arg_verbose A) b of
             (lg, Inl e) \<Rightarrow> (lg, Inl e)
           | (lg, Inr ct) \<Rightarrow>
               (case lead_loop L F E A deps bs
                       (case ct of None \<Rightarrow> rows | Some c \<Rightarrow> rows @ [make_lead_row L F A b dep c]) of
                  (lg2, r) \<Rightarrow> (lg @ lg2, r))))"

text \<open>Failed deployment recovery time (lines 335 to 352).\<close>

record 'f mttr_row =
  mr_app :: string
  mr_failedBuildId :: int
  mr_failedAtUtc :: string
  mr_restoredBuildId :: int
  mr_restoredAtUtc :: string
  mr_mttrSeconds :: int
  mr_mttrHours :: 'f
  mr_mttrHuman :: string
  mr_failedRunUrl :: string
  mr_restoredRunUrl :: string

text \<open>\<open>next((s for s in successes_sorted if s["when"] > f["when"]), None)\<close>.\<close>

definition next_success :: "event list \<Rightarrow> event \<Rightarrow> event option" where
  "next_success successes_sorted f = find (\<lambda>s. ev_when f < ev_when s) successes_sorted"

definition make_mttr_row :: "pylib \<Rightarrow> 'f pyfloat \<Rightarrow> args \<Rightarrow> event \<Rightarrow> event \<Rightarrow> 'f mttr_row" where
  "make_mttr_row L F A f ns =
     (let secs = elapsed_secs (ev_when ns) (ev_when f)
      in \<lparr>mr_app = arg_app A,
          mr_failedBuildId = ev_buildId f,
          mr_failedAtUtc = fmtiso L (ev_when f),
          mr_restoredBuildId = ev_buildId ns,
          mr_restoredAtUtc = fmtiso L (ev_when ns),
          mr_mttrSeconds = secs,
          mr_mttrHours = fround F (truediv F secs 3600) 3,
          mr_mttrHuman = human_dur secs,
          mr_failedRunUrl = run_base_url A @ str_of_int (ev_buildId f),
          mr_restoredRunUrl = run_base_url A @ str_of_int (ev_buildId ns)\<rparr>)"

definition mttr_rows_of :: "pylib \<Rightarrow> 'f pyfloat \<Rightarrow> args \<Rightarrow> event list \<Rightarrow> event list \<Rightarrow> 'f mttr_row list" where
  "mttr_rows_of L F A deps fails =
     (let successes_sorted = sort_key ev_when deps
      in concat (map (\<lambda>f. case next_success successes_sorted f of
                            None \<Rightarrow> []
                          | Some ns \<Rightarrow> [make_mttr_row L F A f ns])
                     (sort_key ev_when fails)))"

subsection \<open>The run\<close>

text \<open>
  What \<open>main\<close> computes between the parsing of its arguments and the writing of the
  files: the events, the daily dictionary, the summary row and the two row lists (the
  writer sorts the rows by their time column).
\<close>

record 'f outputs =
  out_deployments :: "event list"
  out_failures :: "event list"
  out_daily :: "(int \<times> utc_time list) list"
  out_cfr :: "'f cfr_row"
  out_lead_rows :: "'f lead_row list"
  out_mttr_rows :: "'f mttr_row list"

definition compute_metrics ::
  "pylib \<Rightarrow> 'f pyfloat \<Rightarrow> env \<Rightarrow> args \<Rightarrow> build list \<Rightarrow> run_state \<Rightarrow> log_event list \<times> (exn + 'f outputs)" where
  "compute_metrics L F E A builds st =
     (case cfr_pct F (failures st) (deployments st) of
        Inl e \<Rightarrow> ([], Inl e)
      | Inr pct \<Rightarrow>
          (case lead_loop L F E A (deployments st) builds [] of
             (lg, Inl e) \<Rightarrow> (lg, Inl e)
           | (lg, Inr lead_rows) \<Rightarrow>
               (lg, Inr \<lparr>out_deployments = deployments st,
                         out_failures = failures st,
                         out_daily = daily_of (deployments st),
                         out_cfr = cfr_summary L F A (deployments st) (failures st) pct,
                         out_lead_rows = lead_rows,
                         out_mttr_rows = mttr_rows_of L F A (deployments st) (failures st)\<rparr>)))"

definition run :: "pylib \<Rightarrow> 'f pyfloat \<Rightarrow> env \<Rightarrow> args \<Rightarrow> (log_event list \<times> (exn + 'f outputs)) option" where
  "run L F E A =
     (case list_builds E of
        None \<Rightarrow> None
      | Some (Inl e) \<Rightarrow> Some ([], Inl e)
      | Some (Inr builds) \<Rightarrow>
          Some (case classify_loop L E (arg_verbose A) (def_names_of E (arg_defs A)) builds
                       \<lparr>deployments = [], failures = []\<rparr> of
                  (lg1, Inl e) \<Rightarrow> (lg1, Inl e)
                | (lg1, Inr st) \<Rightarrow>
                    (case compute_metrics L F E A builds st of (lg2, r) \<Rightarrow> (lg1 @ lg2, r))))"

subsection \<open>Notions used to state the properties\<close>

text \<open>
  \<open>first_job_at recs sub i\<close>: the record at index \<open>i\<close> is the first record of kind
  \<open>Job\<close> whose lowercased name contains the lowercased \<open>sub\<close>.
\<close>

definition first_job_at :: "timeline_record list \<Rightarrow> string \<Rightarrow> nat \<Rightarrow> bool" where
  "first_job_at recs sub i =
     (i < length recs \<and> record_named ''Job'' sub (recs ! i) \<and>
      (\<forall>j<i. \<not> record_named ''Job'' sub (recs ! j)))"

text \<open>
  \<open>fetch_pages E tok n\<close>: the pages a client gets that asks first with the token
  \<open>tok\<close> and then, \<open>n\<close> times, with the token of the page before; the last page is the
  first one that carries no token. \<open>None\<close> where a request raises or where the pages
  end sooner or later than after \<open>n\<close> further requests.
\<close>

fun fetch_pages :: "env \<Rightarrow> string option \<Rightarrow> nat \<Rightarrow> builds_page list option" where
  "fetch_pages E tok 0 =
     (case get_builds_page E tok of
        Inl e \<Rightarrow> None
      | Inr j \<Rightarrow> if truthy (page_continuationToken j) then None else Some [j])"
| "fetch_pages E tok (Suc n) =
     (case get_builds_page E tok of
        Inl e \<Rightarrow> None
      | Inr j \<Rightarrow>
          if truthy (page_continuationToken j)
          then map_option ((#) j) (fetch_pages E (page_continuationToken j) n)
          else None)"

text \<open>\<open>first_some\<close>: the first of a list of attempts that gives a result.\<close>

fun first_some :: "'a option list \<Rightarrow> 'a option" where
  "first_some [] = None"
| "first_some (Some x # xs) = Some x"
| "first_some (None # xs) = first_some xs"

text \<open>
  A run of characters of a URL between two slashes: not empty, without a slash.
\<close>

definition slash_free_run :: "string \<Rightarrow> bool" where
  "slash_free_run w = (w \<noteq> [] \<and> CHR ''/'' \<notin> set w)"

text \<open>
  \<open>repos_segment_at u k g\<close>: at position \<open>k\<close> of \<open>u\<close> stands \<open>/repos/\<close>, an owner, a
  slash and a name that runs to the next slash or to the end of \<open>u\<close>; \<open>g\<close> is
  \<open>owner/name\<close>. \<open>first_repos_segment u g\<close>: \<open>g\<close> is read at the leftmost such position.
\<close>

definition repos_segment_at :: "string \<Rightarrow> nat \<Rightarrow> string \<Rightarrow> bool" where
  "repos_segment_at u k g =
     (\<exists>owner name rest.
        drop k u = ''/repos/'' @ owner @ ''/'' @ name @ rest \<and> g = owner @ ''/'' @ name \<and>
        slash_free_run owner \<and> slash_free_run name \<and> (rest = [] \<or> hd rest = CHR ''/''))"

definition first_repos_segment :: "string \<Rightarrow> string \<Rightarrow> bool" where
  "first_repos_segment u g =
     (\<exists>k. repos_segment_at u k g \<and> (\<forall>j<k. \<forall>g'. \<not> repos_segment_at u j g'))"

text \<open>
  \<open>api_url_of repo u\<close>: \<open>u\<close> is the API URL of the descriptor, its \<open>apiUrl\<close> property
  or, where that is absent or empty, its \<open>url\<close>; it is not empty.
\<close>

definition api_url_of :: "repository \<Rightarrow> string \<Rightarrow> bool" where
  "api_url_of repo u =
     (u \<noteq> [] \<and>
      (map_of (repo_properties repo) ''apiUrl'' = Some u \<or>
       (map_of (repo_properties repo) ''apiUrl'' = None \<or>
        map_of (repo_properties repo) ''apiUrl'' = Some []) \<and> repo_url repo = Some u))"

text \<open>
  \<open>stripped_of_slashes raw path\<close>: \<open>path\<close> is \<open>raw\<close> without the slashes at its two
  ends.
\<close>

definition stripped_of_slashes :: "string \<Rightarrow> string \<Rightarrow> bool" where
  "stripped_of_slashes raw path =
     (\<exists>a b. raw = a @ path @ b \<and> set a \<subseteq> {CHR ''/''} \<and> set b \<subseteq> {CHR ''/''} \<and>
            (path = [] \<or> hd path \<noteq> CHR ''/'' \<and> last path \<noteq> CHR ''/''))"

text \<open>\<open>later_deployment deps f\<close>: some Deployment is strictly later than the failure \<open>f\<close>.\<close>

definition later_deployment :: "event list \<Rightarrow> event \<Rightarrow> bool" where
  "later_deployment deps f = (\<exists>d\<in>set deps. ev_when f < ev_when d)"

subsection \<open>Concrete inputs\<close>

text \<open>
  A standard library fixed at the few strings the examples use: three timestamps, one of
  them with an offset of two hours and one with a fraction of a second, and the clone
  URL of the scenario. As \<open>datetime.fromisoformat\<close> does, whose documentation excludes
  ordinal dates, it does not parse the ISO 8601 ordinal date \<open>2024-001\<close>.
\<close>

definition sample_lib :: pylib where
  "sample_lib =
     \<lparr>fromisoformat = map_of
        [(''2024-01-01T10:00:00+00:00'', \<lparr>wall_us = 1704103200000000, utcoffset_us = Some 0\<rparr>),
         (''2024-01-01T12:05:00+02:00'',
          \<lparr>wall_us = 1704110700000000, utcoffset_us = Some 7200000000\<rparr>),
         (''2024-01-01T10:00:01.600000+00:00'',
          \<lparr>wall_us = 1704103201600000, utcoffset_us = Some 0\<rparr>)],
      local_utcoffset = (\<lambda>_. 0),
      isoformat = (\<lambda>t. str_of_int t),
      urlparse_path =
        (\<lambda>u. if u = ''https://github.com/acme/app.git'' then ''/acme/app.git'' else [])\<rparr>"

definition sample_build :: build where
  "sample_build =
     \<lparr>build_id = 7, sourceVersion = Some ''abc123'', build_repository = None,
      definition_id = None\<rparr>"

definition empty_state :: run_state where
  "empty_state = \<lparr>deployments = [], failures = []\<rparr>"

text \<open>A timeline whose swap job succeeded at 10:00 UTC, after a task that is no job.\<close>

definition swap_timeline :: "timeline_record list" where
  "swap_timeline =
     [\<lparr>rec_type = Some ''Task'', rec_name = Some ''swap files'', rec_result = Some ''succeeded'',
       rec_finishTime = None\<rparr>,
      \<lparr>rec_type = Some ''Job'', rec_name = Some ''Swap Slots'', rec_result = Some ''Succeeded'',
       rec_finishTime = Some ''2024-01-01T10:00:00Z''\<rparr>]"

text \<open>
  A timeline whose swap job succeeded without a finish time and whose validate job
  failed at 10:05 UTC.
\<close>

definition swap_untimed_timeline :: "timeline_record list" where
  "swap_untimed_timeline =
     [\<lparr>rec_type = Some ''Job'', rec_name = Some ''Swap Slots'', rec_result = Some ''succeeded'',
       rec_finishTime = None\<rparr>,
      \<lparr>rec_type = Some ''Job'', rec_name = Some ''Validate'', rec_result = Some ''failed'',
       rec_finishTime = Some ''2024-01-01T12:05:00+02:00''\<rparr>]"

text \<open>A server with three pages of builds; every commit lookup meets a transport error.\<close>

definition mk_build :: "int \<Rightarrow> build" where
  "mk_build i =
     \<lparr>build_id = i, sourceVersion = None, build_repository = None, definition_id = None\<rparr>"

definition three_pages :: "string option \<Rightarrow> exn + builds_page" where
  "three_pages tok =
     (if tok = None then
        Inr \<lparr>page_value = [mk_build 1, mk_build 2], page_continuationToken = Some ''t1''\<rparr>
      else if tok = Some ''t1'' then
        Inr \<lparr>page_value = [mk_build 3], page_continuationToken = Some ''t2''\<rparr>
      else if tok = Some ''t2'' then
        Inr \<lparr>page_value = [mk_build 4, mk_build 5], page_continuationToken = None\<rparr>
      else Inl (HTTPError 400))"

definition sample_env :: env where
  "sample_env =
     \<lparr>get_builds_page = three_pages,
      get_timeline = (\<lambda>_. Inr []),
      get_ado_commit = (\<lambda>_ _. Inl ConnectionError),
      github_get = (\<lambda>_ _. Inl Timeout),
      get_definition = (\<lambda>_. Inl (HTTPError 404))\<rparr>"

text \<open>A GitHub repository descriptor whose only property is the clone URL.\<close>

definition clone_only_repo :: repository where
  "clone_only_repo =
     \<lparr>repo_type = Some ''GitHub'', repo_id = None, repo_name = None, repo_url = None,
      repo_properties = [(''cloneUrl'', ''https://github.com/acme/app.git'')]\<rparr>"

text \<open>
  Three more descriptors: one with a full name and another clone URL, one with an API
  URL and a name with a slash, one with nothing but a name with a slash.
\<close>

definition full_name_repo :: repository where
  "full_name_repo =
     \<lparr>repo_type = Some ''GitHub'', repo_id = None, repo_name = None, repo_url = None,
      repo_properties = [(''fullName'', ''acme/app''),
                         (''cloneUrl'', ''https://github.com/other/thing.git'')]\<rparr>"

definition api_url_repo :: repository where
  "api_url_repo =
     \<lparr>repo_type = Some ''GitHub'', repo_id = None, repo_name = Some ''x/y'', repo_url = None,
      repo_properties = [(''apiUrl'', ''https://api.github.com/repos/acme/app'')]\<rparr>"

definition named_repo :: repository where
  "named_repo =
     \<lparr>repo_type = Some ''GitHub'', repo_id = Some ''17'', repo_name = Some ''acme/app'',
      repo_url = None, repo_properties = []\<rparr>"

text \<open>A build from Azure Repos and a build from the GitHub repository.\<close>

definition azure_build :: build where
  "azure_build =
     \<lparr>build_id = 8, sourceVersion = Some ''abc123'',
      build_repository =
        Some \<lparr>repo_type = Some ''TfsGit'', repo_id = Some ''r1'', repo_name = Some ''app'',
              repo_url = None, repo_properties = []\<rparr>,
      definition_id = Some 3\<rparr>"

definition github_build :: build where
  "github_build =
     \<lparr>build_id = 9, sourceVersion = Some ''abc123'',
      build_repository = Some clone_only_repo, definition_id = Some 3\<rparr>"

text \<open>
  Float operations for the examples, computed exactly on rationals; \<open>round(x, n)\<close>
  rounds the scaled value to the nearest integer.
\<close>

definition sample_float :: "rat pyfloat" where
  "sample_float =
     \<lparr>truediv = (\<lambda>a b. of_int a / of_int b),
      fmul = (\<lambda>x y. x * y),
      fround = (\<lambda>x n. of_int (py_round (x * 10 ^ n)) / 10 ^ n),
      f_zero = 0,
      f_hundred = 100\<rparr>"

text \<open>The arguments of a run, and a state with four deployments and one failure.\<close>

definition sample_args :: args where
  "sample_args =
     \<lparr>arg_app = ''app'', arg_org = ''org'', arg_project = ''proj'', arg_github_token = None,
      arg_github_repo = None, arg_verbose = False, arg_defs = [3], arg_since = 0,
      arg_until = 7776000000000\<rparr>"

definition four_deploys_one_failure :: run_state where
  "four_deploys_one_failure =
     \<lparr>deployments = [\<lparr>ev_buildId = 1, ev_when = 1000000\<rparr>, \<lparr>ev_buildId = 2, ev_when = 5000000\<rparr>,
                     \<lparr>ev_buildId = 3, ev_when = 9500000\<rparr>, \<lparr>ev_buildId = 4, ev_when = 9500000\<rparr>],
      failures = [\<lparr>ev_buildId = 2, ev_when = 6000000\<rparr>]\<rparr>"

text \<open>
  A server with one GitHub build: its swap job finished at 10:00:01.6 UTC and its commit
  was authored at 10:00:00 UTC.
\<close>

definition lead_env :: env where
  "lead_env =
     \<lparr>get_builds_page = (\<lambda>_. Inr \<lparr>page_value = [github_build], page_continuationToken = None\<rparr>),
      get_timeline =
        (\<lambda>_. Inr [\<lparr>rec_type = Some ''Job'', rec_name = Some ''Swap Slots'',
                    rec_result = Some ''succeeded'',
                    rec_finishTime = Some ''2024-01-01T10:00:01.600000+00:00''\<rparr>]),
      get_ado_commit = (\<lambda>_ _. Inl (HTTPError 404)),
      github_get =
        (\<lambda>_ _. Inr \<lparr>status_code = 200,
                      json_commit = Inr \<lparr>author_date = Some ''2024-01-01T10:00:00Z'',
                                          committer_date = None\<rparr>\<rparr>),
      get_definition = (\<lambda>_. Inr (Some ''deploy''))\<rparr>"

text \<open>Three deployments, given out of order, and two failures.\<close>

definition mttr_deps :: "event list" where
  "mttr_deps = [\<lparr>ev_buildId = 3, ev_when = 9500000\<rparr>, \<lparr>ev_buildId = 1, ev_when = 1000000\<rparr>,
                \<lparr>ev_buildId = 2, ev_when = 7000000\<rparr>]"

definition mttr_fails :: "event list" where
  "mttr_fails = [\<lparr>ev_buildId = 3, ev_when = 9500000\<rparr>, \<lparr>ev_buildId = 1, ev_when = 4200000\<rparr>]"

section \<open>Properties\<close>

subsection \<open>Timestamps\<close>

lemma utc_Some_iff:
  "utc L v = Inr (Some t) \<longleftrightarrow>
     (\<exists>s d. v = Some s \<and> s \<noteq> [] \<and> fromisoformat L (replace_Z s) = Some d \<and> t = astimezone_utc L d)"
  by (cases v) (auto simp: utc_def truthy_def or_empty_def split: option.splits)

lemma utc_None_iff:
  "utc L v = Inr None \<longleftrightarrow> (v = None \<or> v = Some [])"
  by (cases v) (auto simp: utc_def truthy_def or_empty_def split: option.splits)

lemma utc_Inl_iff:
  "utc L v = Inl e \<longleftrightarrow>
     (\<exists>s. v = Some s \<and> s \<noteq> [] \<and> fromisoformat L (replace_Z s) = None \<and> e = ValueError)"
  by (cases v) (auto simp: utc_def truthy_def or_empty_def split: option.splits)






subsection \<open>Classification of a build\<close>

lemma has_job_Some_iff:
  "has_job recs sub = Some r \<longleftrightarrow> (\<exists>i. first_job_at recs sub i \<and> recs ! i = r)"
  unfolding has_job_def first_job_at_def find_Some_iff by blast

lemma has_job_None_iff:
  "has_job recs sub = None \<longleftrightarrow> (\<forall>i. \<not> first_job_at recs sub i)"
proof
  assume "has_job recs sub = None"
  then show "\<forall>i. \<not> first_job_at recs sub i"
    unfolding has_job_def first_job_at_def find_None_iff by auto
next
  assume h: "\<forall>i. \<not> first_job_at recs sub i"
  show "has_job recs sub = None"
  proof (cases "has_job recs sub")
    case None
    then show ?thesis .
  next
    case (Some r)
    then obtain i where "first_job_at recs sub i"
      using has_job_Some_iff by blast
    with h show ?thesis by blast
  qed
qed

lemma first_job_at_unique:
  "first_job_at recs sub i \<Longrightarrow> first_job_at recs sub j \<Longrightarrow> i = j"
  unfolding first_job_at_def by (meson linorder_neqE_nat)

lemma deployments_append_failure [simp]:
  "deployments (append_failure bid ft st) = deployments st"
  by (cases ft; simp add: append_failure_def split: bool.splits option.splits)

lemma process_build_deployments:
  assumes "process_build L v dn b recs st = (lg, Inr st')"
  shows "deployments st' =
     (if job_result_is (has_job recs ''swap'') ''succeeded'' then
        (case utc L (job_finishTime (has_job recs ''swap'')) of
           Inr (Some t) \<Rightarrow> deployments st @ [\<lparr>ev_buildId = build_id b, ev_when = t\<rparr>]
         | _ \<Rightarrow> deployments st)
      else deployments st)"
  using assms
  by (auto simp: process_build_def Let_def split: if_splits sum.splits option.splits prod.splits)

text \<open>
  The loop body returns whenever every finish time of the timeline that is present and
  not empty can be parsed: only \<open>utc\<close> can raise in it.
\<close>

lemma has_job_in_set: "has_job recs sub = Some r \<Longrightarrow> r \<in> set recs"
  unfolding has_job_def find_Some_iff by auto

lemma utc_job_finishTime_returns:
  assumes "\<forall>r\<in>set recs. \<forall>s. rec_finishTime r = Some s \<and> s \<noteq> [] \<longrightarrow>
             fromisoformat L (replace_Z s) \<noteq> None"
  shows "\<exists>t. utc L (job_finishTime (has_job recs sub)) = Inr t"
proof (cases "has_job recs sub")
  case None
  then show ?thesis by (simp add: job_finishTime_def utc_def truthy_def)
next
  case (Some r)
  then have "r \<in> set recs" by (rule has_job_in_set)
  with assms have "\<forall>s. rec_finishTime r = Some s \<and> s \<noteq> [] \<longrightarrow>
             fromisoformat L (replace_Z s) \<noteq> None"
    by blast
  then have "\<forall>e. utc L (rec_finishTime r) \<noteq> Inl e"
    by (auto simp: utc_Inl_iff)
  then show ?thesis
    using Some by (cases "utc L (rec_finishTime r)") (auto simp: job_finishTime_def)
qed

lemma process_build_returns:
  assumes "\<forall>r\<in>set recs. \<forall>s. rec_finishTime r = Some s \<and> s \<noteq> [] \<longrightarrow>
             fromisoformat L (replace_Z s) \<noteq> None"
  shows "\<exists>lg st'. process_build L verbose dn b recs st = (lg, Inr st')"
proof -
  from utc_job_finishTime_returns [OF assms] obtain t1 t2 t3 where
    "utc L (job_finishTime (has_job recs ''swap'')) = Inr t1"
    "utc L (job_finishTime (has_job recs ''validate'')) = Inr t2"
    "utc L (job_finishTime (has_job recs ''rollback'')) = Inr t3"
    by metis
  then show ?thesis
    by (simp add: process_build_def failed_change_of_def Let_def split: option.splits)
qed

text \<open>
  C4. When the loop body returns for a build, it has appended a Deployment exactly when
  the first record of kind \<open>Job\<close> whose lowercased name contains \<open>swap\<close> exists, its
  result is \<open>succeeded\<close> whatever the case of the letters, and its finish time is
  present, not empty and parsed by \<open>datetime.fromisoformat\<close>; the Deployment carries the
  build's id and that finish time in UTC. Where the swap job is missing, did not
  succeed or has no finish time, the deployments are unchanged. Where the finish time
  of a succeeded swap job is present and cannot be parsed, the body raises
  \<open>ValueError\<close> and records no Deployment.
\<close>

theorem deployment_iff_swap_succeeded:
  "(\<forall>lg st'. process_build L verbose dn b recs st = (lg, Inr st') \<longrightarrow>
      ((\<exists>d. deployments st' = deployments st @ [d]) \<longleftrightarrow>
         (\<exists>i s d. first_job_at recs ''swap'' i \<and>
                  lower (or_empty (rec_result (recs ! i))) = ''succeeded'' \<and>
                  rec_finishTime (recs ! i) = Some s \<and> s \<noteq> [] \<and>
                  fromisoformat L (replace_Z s) = Some d)) \<and>
      (\<forall>i s d. first_job_at recs ''swap'' i \<and>
               lower (or_empty (rec_result (recs ! i))) = ''succeeded'' \<and>
               rec_finishTime (recs ! i) = Some s \<and> s \<noteq> [] \<and>
               fromisoformat L (replace_Z s) = Some d \<longrightarrow>
         deployments st' =
           deployments st @ [\<lparr>ev_buildId = build_id b, ev_when = astimezone_utc L d\<rparr>]) \<and>
      (\<not> (\<exists>i s. first_job_at recs ''swap'' i \<and>
                lower (or_empty (rec_result (recs ! i))) = ''succeeded'' \<and>
                rec_finishTime (recs ! i) = Some s \<and> s \<noteq> []) \<longrightarrow>
         deployments st' = deployments st)) \<and>
   (\<forall>i s. first_job_at recs ''swap'' i \<and>
          lower (or_empty (rec_result (recs ! i))) = ''succeeded'' \<and>
          rec_finishTime (recs ! i) = Some s \<and> s \<noteq> [] \<and>
          fromisoformat L (replace_Z s) = None \<longrightarrow>
      process_build L verbose dn b recs st = ([], Inl ValueError))"
proof (intro conjI allI impI)
  fix lg st'
  assume ret: "process_build L verbose dn b recs st = (lg, Inr st')"
  note dep = process_build_deployments [OF ret]
  show "(\<exists>d. deployments st' = deployments st @ [d]) \<longleftrightarrow>
         (\<exists>i s d. first_job_at recs ''swap'' i \<and>
                  lower (or_empty (rec_result (recs ! i))) = ''succeeded'' \<and>
                  rec_finishTime (recs ! i) = Some s \<and> s \<noteq> [] \<and>
                  fromisoformat L (replace_Z s) = Some d)"
  proof (cases "has_job recs ''swap''")
    case None
    then show ?thesis using dep has_job_None_iff [of recs "''swap''"]
      by (auto simp: job_result_is_def)
  next
    case (Some sw)
    then obtain i where i: "first_job_at recs ''swap'' i" "recs ! i = sw"
      using has_job_Some_iff by blast
    show ?thesis
    proof
      assume "\<exists>d. deployments st' = deployments st @ [d]"
      then have "job_result_is (Some sw) ''succeeded''" and "\<exists>t. utc L (rec_finishTime sw) = Inr (Some t)"
        using dep Some by (auto simp: job_finishTime_def split: if_splits sum.splits option.splits)
      then show "\<exists>i s d. first_job_at recs ''swap'' i \<and>
                  lower (or_empty (rec_result (recs ! i))) = ''succeeded'' \<and>
                  rec_finishTime (recs ! i) = Some s \<and> s \<noteq> [] \<and>
                  fromisoformat L (replace_Z s) = Some d"
        using i by (auto simp: job_result_is_def utc_Some_iff)
    next
      assume "\<exists>i s d. first_job_at recs ''swap'' i \<and>
                  lower (or_empty (rec_result (recs ! i))) = ''succeeded'' \<and>
                  rec_finishTime (recs ! i) = Some s \<and> s \<noteq> [] \<and>
                  fromisoformat L (replace_Z s) = Some d"
      then obtain j s d where j: "first_job_at recs ''swap'' j"
        "lower (or_empty (rec_result (recs ! j))) = ''succeeded''"
        "rec_finishTime (recs ! j) = Some s" "s \<noteq> []" "fromisoformat L (replace_Z s) = Some d"
        by blast
      have "j = i" using first_job_at_unique [OF j(1) i(1)] .
      with j i have "job_result_is (Some sw) ''succeeded''"
        and "utc L (rec_finishTime sw) = Inr (Some (astimezone_utc L d))"
        by (auto simp: job_result_is_def utc_Some_iff)
      then show "\<exists>d. deployments st' = deployments st @ [d]"
        using dep Some by (simp add: job_finishTime_def)
    qed
  qed
next
  fix lg st' i s d
  assume ret: "process_build L verbose dn b recs st = (lg, Inr st')"
  assume h: "first_job_at recs ''swap'' i \<and>
               lower (or_empty (rec_result (recs ! i))) = ''succeeded'' \<and>
               rec_finishTime (recs ! i) = Some s \<and> s \<noteq> [] \<and>
               fromisoformat L (replace_Z s) = Some d"
  then have sw: "has_job recs ''swap'' = Some (recs ! i)" using has_job_Some_iff by blast
  have "utc L (rec_finishTime (recs ! i)) = Inr (Some (astimezone_utc L d))"
    using h by (auto simp: utc_Some_iff)
  then show "deployments st' =
           deployments st @ [\<lparr>ev_buildId = build_id b, ev_when = astimezone_utc L d\<rparr>]"
    using process_build_deployments [OF ret] sw h
    by (simp add: job_result_is_def job_finishTime_def)
next
  fix lg st'
  assume ret: "process_build L verbose dn b recs st = (lg, Inr st')"
  assume no: "\<not> (\<exists>i s. first_job_at recs ''swap'' i \<and>
                lower (or_empty (rec_result (recs ! i))) = ''succeeded'' \<and>
                rec_finishTime (recs ! i) = Some s \<and> s \<noteq> [])"
  show "deployments st' = deployments st"
  proof (cases "has_job recs ''swap''")
    case None
    then show ?thesis using process_build_deployments [OF ret] by (simp add: job_result_is_def)
  next
    case (Some sw)
    then obtain i where i: "first_job_at recs ''swap'' i" "recs ! i = sw"
      using has_job_Some_iff by blast
    with no have "lower (or_empty (rec_result sw)) = ''succeeded'' \<Longrightarrow> \<not> (\<exists>t. utc L (rec_finishTime sw) = Inr (Some t))"
      by (auto simp: utc_Some_iff)
    then show ?thesis using process_build_deployments [OF ret] Some
      by (auto simp: job_result_is_def job_finishTime_def split: sum.splits option.splits)
  qed
next
  fix i s
  assume h: "first_job_at recs ''swap'' i \<and>
          lower (or_empty (rec_result (recs ! i))) = ''succeeded'' \<and>
          rec_finishTime (recs ! i) = Some s \<and> s \<noteq> [] \<and>
          fromisoformat L (replace_Z s) = None"
  then have sw: "has_job recs ''swap'' = Some (recs ! i)" using has_job_Some_iff by blast
  have "utc L (rec_finishTime (recs ! i)) = Inl ValueError"
    using h by (auto simp: utc_Inl_iff)
  then show "process_build L verbose dn b recs st = ([], Inl ValueError)"
    using sw h by (simp add: process_build_def job_result_is_def job_finishTime_def)
qed

theorem deployment_iff_swap_succeeded_witness:
  "\<exists>lg st'. process_build sample_lib False (\<lambda>_. None) sample_build swap_timeline empty_state
              = (lg, Inr st') \<and>
            first_job_at swap_timeline ''swap'' 1 \<and>
            deployments st' = [\<lparr>ev_buildId = 7, ev_when = 1704103200000000\<rparr>]"
proof -
  define st1 where
    "st1 = \<lparr>deployments = [\<lparr>ev_buildId = 7, ev_when = 1704103200000000\<rparr>], failures = []\<rparr>"
  have ret: "process_build sample_lib False (\<lambda>_. None) sample_build swap_timeline empty_state
               = ([], Inr st1)"
    by (simp add: process_build_def has_job_def record_named_def job_result_is_def
        job_finishTime_def failed_change_of_def append_failure_def deploy_trace_def utc_def
        sample_lib_def sample_build_def swap_timeline_def empty_state_def st1_def truthy_def
        or_empty_def replace_Z_def astimezone_utc_def lower_def char_lower_def)
  have fj: "first_job_at swap_timeline ''swap'' 1 \<and>
            lower (or_empty (rec_result (swap_timeline ! 1))) = ''succeeded'' \<and>
            rec_finishTime (swap_timeline ! 1) = Some ''2024-01-01T10:00:00Z'' \<and>
            ''2024-01-01T10:00:00Z'' \<noteq> [] \<and>
            fromisoformat sample_lib (replace_Z ''2024-01-01T10:00:00Z'') =
              Some \<lparr>wall_us = 1704103200000000, utcoffset_us = Some 0\<rparr>"
    by (simp add: first_job_at_def record_named_def swap_timeline_def sample_lib_def
        or_empty_def replace_Z_def lower_def char_lower_def)
  from deployment_iff_swap_succeeded
         [of sample_lib False "\<lambda>_. None" sample_build swap_timeline empty_state] ret fj
  have "deployments st1 =
          deployments empty_state @
            [\<lparr>ev_buildId = build_id sample_build,
              ev_when = astimezone_utc sample_lib
                          \<lparr>wall_us = 1704103200000000, utcoffset_us = Some 0\<rparr>\<rparr>]"
    by blast
  then have "deployments st1 = [\<lparr>ev_buildId = 7, ev_when = 1704103200000000\<rparr>]"
    by (simp add: empty_state_def sample_build_def astimezone_utc_def)
  with ret fj show ?thesis by blast
qed

text \<open>
  C1. The claim fails on the code. The block that records a failure stands inside the
  test of the swap job's result and outside the test of \<open>dep_time\<close>: a build whose swap
  job succeeded without a finish time and whose validate job failed gets a FailureEvent
  and no Deployment.
\<close>

theorem failure_recorded_without_deployment:
  "process_build sample_lib False (\<lambda>_. None) sample_build swap_untimed_timeline empty_state =
     ([], Inr \<lparr>deployments = [],
               failures = [\<lparr>ev_buildId = 7, ev_when = 1704103500000000\<rparr>]\<rparr>)"
  by (simp add: process_build_def has_job_def record_named_def job_result_is_def
      job_finishTime_def failed_change_of_def append_failure_def utc_def
      sample_lib_def sample_build_def swap_untimed_timeline_def empty_state_def truthy_def
      or_empty_def replace_Z_def astimezone_utc_def lower_def char_lower_def)

subsection \<open>Pagination\<close>

lemma list_builds_loop_pages:
  "fetch_pages E tok n = Some pages \<Longrightarrow> tok = None \<or> truthy tok \<Longrightarrow>
   list_builds_loop E tok acc = Some (Inr (acc @ concat (map page_value pages)))"
proof (induction n arbitrary: tok acc pages)
  case 0
  then show ?case
    by (subst list_builds_loop.simps) (auto split: sum.splits if_splits)
next
  case (Suc n)
  from Suc.prems obtain j rest where j: "get_builds_page E tok = Inr j"
    "truthy (page_continuationToken j)"
    "fetch_pages E (page_continuationToken j) n = Some rest" "pages = j # rest"
    by (auto split: sum.splits if_splits)
  have "list_builds_loop E (page_continuationToken j) (acc @ page_value j)
          = Some (Inr ((acc @ page_value j) @ concat (map page_value rest)))"
    using Suc.IH [OF j(3)] j(2) by blast
  then show ?case
    using j Suc.prems(2) by (subst list_builds_loop.simps) auto
qed

lemma list_builds_loop_error:
  "get_builds_page E None = Inl e \<Longrightarrow> list_builds E = Some (Inl e)"
  unfolding list_builds_def by (subst list_builds_loop.simps) (simp add: truthy_def)

text \<open>
  C7. Where the server answers the first query and then each query that carries the
  token of the page before, until a page carries no token, \<open>list_builds\<close> returns, and
  what it returns is the concatenation of the builds of all these pages in order:
  no page is left out.
\<close>

theorem list_builds_concatenates_all_pages:
  assumes "fetch_pages E None n = Some pages"
  shows "list_builds E = Some (Inr (concat (map page_value pages))) \<and> length pages = Suc n"
proof
  show "list_builds E = Some (Inr (concat (map page_value pages)))"
    unfolding list_builds_def using list_builds_loop_pages [OF assms, of "[]"] by simp
  have "fetch_pages E tok n = Some ps \<Longrightarrow> length ps = Suc n" for tok ps
    by (induction n arbitrary: tok ps) (auto split: sum.splits if_splits)
  then show "length pages = Suc n" using assms by blast
qed

theorem list_builds_concatenates_all_pages_witness:
  "fetch_pages sample_env None 2 =
     Some [\<lparr>page_value = [mk_build 1, mk_build 2], page_continuationToken = Some ''t1''\<rparr>,
           \<lparr>page_value = [mk_build 3], page_continuationToken = Some ''t2''\<rparr>,
           \<lparr>page_value = [mk_build 4, mk_build 5], page_continuationToken = None\<rparr>] \<and>
   list_builds sample_env = Some (Inr [mk_build 1, mk_build 2, mk_build 3, mk_build 4, mk_build 5])"
proof -
  have f: "fetch_pages sample_env None 2 =
     Some [\<lparr>page_value = [mk_build 1, mk_build 2], page_continuationToken = Some ''t1''\<rparr>,
           \<lparr>page_value = [mk_build 3], page_continuationToken = Some ''t2''\<rparr>,
           \<lparr>page_value = [mk_build 4, mk_build 5], page_continuationToken = None\<rparr>]"
    by (simp add: eval_nat_numeral sample_env_def three_pages_def truthy_def)
  from list_builds_concatenates_all_pages [OF f] f show ?thesis by simp
qed

subsection \<open>Owner and repository of a GitHub build\<close>

lemma first_with_slash_empty [simp]: "first_with_slash (\<lambda>k. None) ks = None"
  by (induction ks) (auto simp: truthy_def)

lemma first_some_single [simp]: "first_some [x] = x"
  by (cases x) simp_all

lemma extract_owner_repo_order:
  "py_or override (extract_owner_repo L repo) =
     first_some [if truthy override then override else None, full_name_step repo,
                 api_url_step repo, clone_url_step L repo, name_id_step repo]"
proof (cases "repo = empty_repository")
  case True
  then show ?thesis
    by (cases override)
       (auto simp: py_or_def extract_owner_repo_def empty_repository_def full_name_step_def
        api_url_step_def clone_url_step_def name_id_step_def repo_get_def truthy_def)
next
  case False
  then show ?thesis
    by (cases override) (auto simp: py_or_def extract_owner_repo_def truthy_def split: option.splits)
qed

text \<open>
  Each step of the resolution, said without the code: when it gives a result and which.
\<close>

lemma str_contains_single: "str_contains [c] s \<longleftrightarrow> c \<in> set s"
  by (induction s) auto

lemma first_with_slash_iff:
  "first_with_slash get ks = Some v \<longleftrightarrow>
     (\<exists>i<length ks. get (ks ! i) = Some v \<and> CHR ''/'' \<in> set v \<and>
        (\<forall>j<i. \<forall>w. get (ks ! j) = Some w \<longrightarrow> CHR ''/'' \<notin> set w))"
proof (induction ks)
  case Nil
  then show ?case by simp
next
  case (Cons k ks)
  let ?q = "truthy (get k) \<and> str_contains ''/'' (or_empty (get k))"
  have q: "?q \<longleftrightarrow> (\<exists>w. get k = Some w \<and> CHR ''/'' \<in> set w)"
    by (cases "get k") (auto simp: truthy_def or_empty_def str_contains_single)
  show ?case
  proof (cases ?q)
    case True
    then obtain w where w: "get k = Some w" "CHR ''/'' \<in> set w" using q by blast
    have "first_with_slash get (k # ks) = Some w" using True w by simp
    moreover have "(\<exists>i<length (k # ks). get ((k # ks) ! i) = Some v \<and> CHR ''/'' \<in> set v \<and>
        (\<forall>j<i. \<forall>w. get ((k # ks) ! j) = Some w \<longrightarrow> CHR ''/'' \<notin> set w)) \<longleftrightarrow> v = w"
    proof
      assume "\<exists>i<length (k # ks). get ((k # ks) ! i) = Some v \<and> CHR ''/'' \<in> set v \<and>
        (\<forall>j<i. \<forall>w. get ((k # ks) ! j) = Some w \<longrightarrow> CHR ''/'' \<notin> set w)"
      then obtain i where i: "get ((k # ks) ! i) = Some v"
        "\<forall>j<i. \<forall>w. get ((k # ks) ! j) = Some w \<longrightarrow> CHR ''/'' \<notin> set w"
        by blast
      have "i = 0"
      proof (rule ccontr)
        assume "i \<noteq> 0"
        then have "0 < i" by simp
        with i(2) w show False by force
      qed
      with i(1) w show "v = w" by simp
    next
      assume "v = w"
      with w show "\<exists>i<length (k # ks). get ((k # ks) ! i) = Some v \<and> CHR ''/'' \<in> set v \<and>
        (\<forall>j<i. \<forall>w. get ((k # ks) ! j) = Some w \<longrightarrow> CHR ''/'' \<notin> set w)"
        by (intro exI [of _ 0]) simp
    qed
    ultimately show ?thesis by auto
  next
    case False
    then have nq: "\<forall>w. get k = Some w \<longrightarrow> CHR ''/'' \<notin> set w" using q by blast
    have "first_with_slash get (k # ks) = first_with_slash get ks" using False by auto
    moreover have "(\<exists>i<length (k # ks). get ((k # ks) ! i) = Some v \<and> CHR ''/'' \<in> set v \<and>
        (\<forall>j<i. \<forall>w. get ((k # ks) ! j) = Some w \<longrightarrow> CHR ''/'' \<notin> set w)) \<longleftrightarrow>
      (\<exists>i<length ks. get (ks ! i) = Some v \<and> CHR ''/'' \<in> set v \<and>
        (\<forall>j<i. \<forall>w. get (ks ! j) = Some w \<longrightarrow> CHR ''/'' \<notin> set w))"
    proof
      assume "\<exists>i<length (k # ks). get ((k # ks) ! i) = Some v \<and> CHR ''/'' \<in> set v \<and>
        (\<forall>j<i. \<forall>w. get ((k # ks) ! j) = Some w \<longrightarrow> CHR ''/'' \<notin> set w)"
      then obtain i where i: "i < length (k # ks)" "get ((k # ks) ! i) = Some v" "CHR ''/'' \<in> set v"
        "\<forall>j<i. \<forall>w. get ((k # ks) ! j) = Some w \<longrightarrow> CHR ''/'' \<notin> set w"
        by blast
      from i(2,3) nq have "i \<noteq> 0" by (cases i) auto
      then obtain i' where i': "i = Suc i'" by (cases i) auto
      have "\<forall>j<i'. \<forall>w. get (ks ! j) = Some w \<longrightarrow> CHR ''/'' \<notin> set w"
      proof (intro allI impI)
        fix j w assume "j < i'" "get (ks ! j) = Some w"
        then have "Suc j < i" "get ((k # ks) ! Suc j) = Some w" using i' by simp_all
        with i(4) show "CHR ''/'' \<notin> set w" by blast
      qed
      with i i' show "\<exists>i<length ks. get (ks ! i) = Some v \<and> CHR ''/'' \<in> set v \<and>
        (\<forall>j<i. \<forall>w. get (ks ! j) = Some w \<longrightarrow> CHR ''/'' \<notin> set w)"
        by auto
    next
      assume "\<exists>i<length ks. get (ks ! i) = Some v \<and> CHR ''/'' \<in> set v \<and>
        (\<forall>j<i. \<forall>w. get (ks ! j) = Some w \<longrightarrow> CHR ''/'' \<notin> set w)"
      then obtain i where i: "i < length ks" "get (ks ! i) = Some v" "CHR ''/'' \<in> set v"
        "\<forall>j<i. \<forall>w. get (ks ! j) = Some w \<longrightarrow> CHR ''/'' \<notin> set w"
        by blast
      have "\<forall>j<Suc i. \<forall>w. get ((k # ks) ! j) = Some w \<longrightarrow> CHR ''/'' \<notin> set w"
      proof (intro allI impI)
        fix j w assume j: "j < Suc i" "get ((k # ks) ! j) = Some w"
        show "CHR ''/'' \<notin> set w"
        proof (cases j)
          case 0
          with j nq show ?thesis by simp
        next
          case (Suc j')
          with j i(4) show ?thesis by simp
        qed
      qed
      with i show "\<exists>i<length (k # ks). get ((k # ks) ! i) = Some v \<and> CHR ''/'' \<in> set v \<and>
        (\<forall>j<i. \<forall>w. get ((k # ks) ! j) = Some w \<longrightarrow> CHR ''/'' \<notin> set w)"
        by (intro exI [of _ "Suc i"]) simp
    qed
    ultimately show ?thesis using Cons.IH by simp
  qed
qed

lemma takeWhile_run:
  assumes "CHR ''/'' \<notin> set w" and "rest = [] \<or> hd rest = CHR ''/''"
  shows "takeWhile not_slash (w @ rest) = w" and "dropWhile not_slash (w @ rest) = rest"
proof -
  have w: "\<And>x. x \<in> set w \<Longrightarrow> not_slash x" using assms(1) by (auto simp: not_slash_def)
  have r: "takeWhile not_slash rest = []" "dropWhile not_slash rest = rest"
    using assms(2) by (cases rest; auto simp: not_slash_def)+
  show "takeWhile not_slash (w @ rest) = w"
    using w r by (simp add: takeWhile_append2)
  show "dropWhile not_slash (w @ rest) = rest"
    using w r by (simp add: dropWhile_append2)
qed

lemma match_repos_at_iff:
  "match_repos_at s = Some g \<longleftrightarrow> repos_segment_at s 0 g"
proof
  assume m: "match_repos_at s = Some g"
  define r where "r = drop 7 s"
  define owner where "owner = takeWhile not_slash r"
  define r' where "r' = dropWhile not_slash r"
  define name where "name = takeWhile not_slash (tl r')"
  define rest where "rest = dropWhile not_slash (tl r')"
  from m have p: "prefix ''/repos/'' s" and o: "owner \<noteq> []" and r': "r' \<noteq> []"
    and n: "name \<noteq> []" and g: "g = owner @ ''/'' @ name"
    by (auto simp: match_repos_at_def Let_def r_def owner_def r'_def name_def split: if_splits)
  from p have s: "s = ''/repos/'' @ r"
    unfolding r_def by (auto simp: prefix_def)
  have "\<not> not_slash (hd r')" using r' unfolding r'_def by (simp add: hd_dropWhile)
  then have hd: "r' = CHR ''/'' # tl r'" using r' by (cases r') (auto simp: not_slash_def)
  have "r = owner @ r'" unfolding owner_def r'_def by simp
  also have "r' = ''/'' @ name @ rest"
    using hd unfolding name_def rest_def by simp
  finally have s': "s = ''/repos/'' @ owner @ ''/'' @ name @ rest"
    using s by simp
  have sf: "CHR ''/'' \<notin> set owner" "CHR ''/'' \<notin> set name"
    unfolding owner_def name_def by (auto dest: set_takeWhileD simp: not_slash_def)
  have "rest = [] \<or> hd rest = CHR ''/''"
  proof (cases rest)
    case Nil
    then show ?thesis by simp
  next
    case (Cons x xs)
    then have "rest \<noteq> []" by simp
    then have "\<not> not_slash (hd rest)" unfolding rest_def by (simp add: hd_dropWhile)
    then show ?thesis by (simp add: not_slash_def)
  qed
  with s' sf o n g show "repos_segment_at s 0 g"
    unfolding repos_segment_at_def slash_free_run_def by auto
next
  assume "repos_segment_at s 0 g"
  then obtain owner name rest where s: "s = ''/repos/'' @ owner @ ''/'' @ name @ rest"
    and g: "g = owner @ ''/'' @ name"
    and o: "owner \<noteq> []" "CHR ''/'' \<notin> set owner" and n: "name \<noteq> []" "CHR ''/'' \<notin> set name"
    and rest: "rest = [] \<or> hd rest = CHR ''/''"
    unfolding repos_segment_at_def slash_free_run_def by auto
  have p: "prefix ''/repos/'' s" using s by simp
  have d: "drop 7 s = owner @ (''/'' @ name @ rest)" using s by simp
  have t1: "takeWhile not_slash (drop 7 s) = owner" "dropWhile not_slash (drop 7 s) = ''/'' @ name @ rest"
    unfolding d by (rule takeWhile_run; simp add: o)+
  have t2: "takeWhile not_slash (name @ rest) = name"
    by (rule takeWhile_run(1) [OF n(2) rest])
  show "match_repos_at s = Some g"
    unfolding match_repos_at_def Let_def t1 using p o n g t2 by simp
qed

lemma repos_segment_at_Suc:
  "repos_segment_at (c # cs) (Suc k) g \<longleftrightarrow> repos_segment_at cs k g"
  by (simp add: repos_segment_at_def)

lemma search_repos_iff: "search_repos u = Some g \<longleftrightarrow> first_repos_segment u g"
proof (induction u)
  case Nil
  then show ?case by (simp add: first_repos_segment_def repos_segment_at_def)
next
  case (Cons c cs)
  show ?case
  proof (cases "match_repos_at (c # cs)")
    case (Some g0)
    then have seg0: "repos_segment_at (c # cs) 0 g0" by (simp add: match_repos_at_iff)
    have "first_repos_segment (c # cs) g \<longleftrightarrow> g = g0"
    proof
      assume "first_repos_segment (c # cs) g"
      then obtain k where k: "repos_segment_at (c # cs) k g"
        "\<forall>j<k. \<forall>g'. \<not> repos_segment_at (c # cs) j g'"
        unfolding first_repos_segment_def by blast
      have "k = 0"
      proof (rule ccontr)
        assume "k \<noteq> 0"
        then have "0 < k" by simp
        with k(2) seg0 show False by blast
      qed
      with k(1) have "match_repos_at (c # cs) = Some g" by (simp add: match_repos_at_iff)
      with Some show "g = g0" by simp
    next
      assume "g = g0"
      with seg0 show "first_repos_segment (c # cs) g"
        unfolding first_repos_segment_def by (intro exI [of _ 0]) simp
    qed
    with Some show ?thesis by auto
  next
    case None
    then have no0: "\<not> repos_segment_at (c # cs) 0 g'" for g'
      using match_repos_at_iff [of "c # cs" g'] by simp
    have "first_repos_segment (c # cs) g \<longleftrightarrow> first_repos_segment cs g"
    proof
      assume "first_repos_segment (c # cs) g"
      then obtain k where k: "repos_segment_at (c # cs) k g"
        "\<forall>j<k. \<forall>g'. \<not> repos_segment_at (c # cs) j g'"
        unfolding first_repos_segment_def by blast
      from k(1) no0 obtain k' where k': "k = Suc k'" by (cases k) auto
      have "\<forall>j<k'. \<forall>g'. \<not> repos_segment_at cs j g'"
      proof (intro allI impI)
        fix j g' assume "j < k'"
        then have "Suc j < k" using k' by simp
        with k(2) have "\<not> repos_segment_at (c # cs) (Suc j) g'" by blast
        then show "\<not> repos_segment_at cs j g'" by (simp add: repos_segment_at_Suc)
      qed
      moreover have "repos_segment_at cs k' g" using k(1) k' by (simp add: repos_segment_at_Suc)
      ultimately show "first_repos_segment cs g"
        unfolding first_repos_segment_def by blast
    next
      assume "first_repos_segment cs g"
      then obtain k where k: "repos_segment_at cs k g" "\<forall>j<k. \<forall>g'. \<not> repos_segment_at cs j g'"
        unfolding first_repos_segment_def by blast
      have "\<forall>j<Suc k. \<forall>g'. \<not> repos_segment_at (c # cs) j g'"
      proof (intro allI impI)
        fix j g' assume j: "j < Suc k"
        show "\<not> repos_segment_at (c # cs) j g'"
        proof (cases j)
          case 0
          then show ?thesis using no0 by simp
        next
          case (Suc j')
          with j k(2) show ?thesis by (simp add: repos_segment_at_Suc)
        qed
      qed
      moreover have "repos_segment_at (c # cs) (Suc k) g" using k(1) by (simp add: repos_segment_at_Suc)
      ultimately show "first_repos_segment (c # cs) g"
        unfolding first_repos_segment_def by blast
    qed
    with None Cons.IH show ?thesis by simp
  qed
qed

lemma str_contains_drop:
  "k \<le> length s \<Longrightarrow> prefix sub (drop k s) \<Longrightarrow> str_contains sub s"
proof (induction s arbitrary: k)
  case Nil
  then show ?case by simp
next
  case (Cons c cs)
  show ?case
  proof (cases k)
    case 0
    with Cons.prems show ?thesis by simp
  next
    case (Suc k')
    with Cons.prems Cons.IH [of k'] show ?thesis by simp
  qed
qed

lemma no_earlier_repos_segment:
  assumes "\<not> str_contains ''/repos/'' (pre @ ''/repos'')" and "j < length pre"
  shows "\<not> repos_segment_at (pre @ ''/repos/'' @ x) j g'"
proof
  assume "repos_segment_at (pre @ ''/repos/'' @ x) j g'"
  then have p: "prefix ''/repos/'' (drop j (pre @ ''/repos/'' @ x))"
    unfolding repos_segment_at_def by auto
  define front where "front = drop j pre @ ''/repos''"
  have d: "drop j (pre @ ''/repos/'' @ x) = front @ (''/'' @ x)"
    using assms(2) by (simp add: front_def)
  have len: "length ''/repos/'' \<le> length front"
    using assms(2) by (simp add: front_def)
  from p have "prefix ''/repos/'' (front @ (''/'' @ x))" by (simp only: d)
  then consider (whole) "prefix ''/repos/'' front"
    | (split) us where "''/repos/'' = front @ us"
    unfolding prefix_append by blast
  then have "prefix ''/repos/'' front"
  proof cases
    case whole
    then show ?thesis .
  next
    case split
    then have "length ''/repos/'' = length (front @ us)" by (rule arg_cong)
    with len have "us = []" by simp
    with split show ?thesis by simp
  qed
  then have "prefix ''/repos/'' (drop j pre @ ''/repos'')" by (simp only: front_def)
  then have "prefix ''/repos/'' (drop j (pre @ ''/repos''))"
    using assms(2) by simp
  moreover have "j \<le> length (pre @ ''/repos'')" using assms(2) by simp
  ultimately have "str_contains ''/repos/'' (pre @ ''/repos'')"
    by (rule str_contains_drop [rotated])
  with assms(1) show False by contradiction
qed

lemma strip_slash_unique:
  assumes "set a \<subseteq> {CHR ''/''}" and "set b \<subseteq> {CHR ''/''}"
    and "path = [] \<or> hd path \<noteq> CHR ''/'' \<and> last path \<noteq> CHR ''/''"
  shows "strip_slash (a @ path @ b) = path"
proof -
  let ?P = "\<lambda>c. c = CHR ''/''"
  have a: "\<And>x. x \<in> set a \<Longrightarrow> ?P x" and b: "\<And>x. x \<in> set (rev b) \<Longrightarrow> ?P x"
    using assms(1,2) by auto
  have 1: "dropWhile ?P (a @ path @ b) = dropWhile ?P (path @ b)"
    using a by (simp add: dropWhile_append2)
  show ?thesis
  proof (cases "path = []")
    case True
    have "\<forall>x\<in>set b. ?P x" using assms(2) by auto
    then have "dropWhile ?P b = []" by (simp only: dropWhile_eq_Nil_conv)
    with True 1 have e: "dropWhile ?P (a @ path @ b) = []" by (simp only: append_Nil)
    show ?thesis
      by (simp only: strip_slash_def rstrip_slash_def e) (simp add: True)
  next
    case False
    with assms(3) have h: "\<not> ?P (hd path)" and l: "\<not> ?P (last path)" by auto
    from False h have 2: "dropWhile ?P (path @ b) = path @ b"
      by (cases path) auto
    have "dropWhile ?P (rev (path @ b)) = dropWhile ?P (rev b @ rev path)" by simp
    also have "\<dots> = dropWhile ?P (rev path)"
      by (rule dropWhile_append2) (use assms(2) in auto)
    also have "\<dots> = rev path"
      using False l by (cases "rev path") (auto simp: last_rev [symmetric] hd_rev)
    finally show ?thesis
      using 1 2 by (simp add: strip_slash_def rstrip_slash_def)
  qed
qed

lemma strip_slash_iff: "strip_slash raw = path \<longleftrightarrow> stripped_of_slashes raw path"
proof
  assume sp: "strip_slash raw = path"
  let ?P = "\<lambda>c. c = CHR ''/''"
  define a where "a = takeWhile ?P raw"
  define mid where "mid = dropWhile ?P raw"
  define b where "b = rev (takeWhile ?P (rev mid))"
  have p: "path = rev (dropWhile ?P (rev mid))"
    using sp by (simp add: strip_slash_def rstrip_slash_def mid_def)
  have "mid = rev (takeWhile ?P (rev mid) @ dropWhile ?P (rev mid))"
    by (simp only: takeWhile_dropWhile_id rev_rev_ident)
  then have m: "mid = path @ b" unfolding p b_def by (simp only: rev_append)
  have raw: "raw = a @ path @ b" unfolding a_def m [symmetric] mid_def by simp
  have sa: "set a \<subseteq> {CHR ''/''}" unfolding a_def by (auto dest: set_takeWhileD)
  have sb: "set b \<subseteq> {CHR ''/''}" unfolding b_def by (auto dest: set_takeWhileD)
  have e: "hd path \<noteq> CHR ''/'' \<and> last path \<noteq> CHR ''/''" if ne: "path \<noteq> []"
  proof
    from ne m have "mid \<noteq> []" "hd path = hd mid" by auto
    then show "hd path \<noteq> CHR ''/''"
      unfolding mid_def using hd_dropWhile [of ?P raw] by auto
    from ne p have d: "dropWhile ?P (rev mid) \<noteq> []" by auto
    then have "\<not> ?P (hd (dropWhile ?P (rev mid)))" by (rule hd_dropWhile)
    moreover have "last path = hd (dropWhile ?P (rev mid))"
      unfolding p using d by (simp add: last_rev)
    ultimately show "last path \<noteq> CHR ''/''" by simp
  qed
  show "stripped_of_slashes raw path"
    unfolding stripped_of_slashes_def using raw sa sb e by blast
next
  assume "stripped_of_slashes raw path"
  then show "strip_slash raw = path"
    unfolding stripped_of_slashes_def using strip_slash_unique by blast
qed

lemma endswith_iff: "endswith s suf \<longleftrightarrow> (\<exists>q. s = q @ suf)"
proof
  assume "endswith s suf"
  then obtain zs where "rev s = rev suf @ zs" by (auto simp: endswith_def prefix_def)
  then have "s = rev zs @ suf" by (metis rev_append rev_rev_ident)
  then show "\<exists>q. s = q @ suf" by blast
next
  assume "\<exists>q. s = q @ suf"
  then show "endswith s suf" by (auto simp: endswith_def)
qed

lemma full_name_step_iff:
  "full_name_step repo = Some v \<longleftrightarrow>
     (\<exists>i<4. map_of (repo_properties repo)
                ([''fullName'', ''full_name'', ''repoFullName'', ''repositoryFullName''] ! i) = Some v \<and>
             CHR ''/'' \<in> set v \<and>
             (\<forall>j<i. \<forall>w. map_of (repo_properties repo)
                          ([''fullName'', ''full_name'', ''repoFullName'', ''repositoryFullName''] ! j)
                          = Some w \<longrightarrow> CHR ''/'' \<notin> set w))"
  unfolding full_name_step_def first_with_slash_iff by (simp add: eval_nat_numeral)

lemma name_id_step_iff:
  "name_id_step repo = Some v \<longleftrightarrow>
     CHR ''/'' \<in> set v \<and>
     (repo_name repo = Some v \<or>
      (\<forall>w. repo_name repo = Some w \<longrightarrow> CHR ''/'' \<notin> set w) \<and> repo_id repo = Some v)"
proof -
  have n: "repo_get repo ''name'' = repo_name repo" and i: "repo_get repo ''id'' = repo_id repo"
    by (simp_all add: repo_get_def)
  have "name_id_step repo = Some v \<longleftrightarrow>
     (\<exists>i<Suc (Suc 0). repo_get repo ([''name'', ''id''] ! i) = Some v \<and> CHR ''/'' \<in> set v \<and>
        (\<forall>j<i. \<forall>w. repo_get repo ([''name'', ''id''] ! j) = Some w \<longrightarrow> CHR ''/'' \<notin> set w))"
    unfolding name_id_step_def first_with_slash_iff by simp
  also have "\<dots> \<longleftrightarrow>
     (repo_get repo ''name'' = Some v \<and> CHR ''/'' \<in> set v) \<or>
     (repo_get repo ''id'' = Some v \<and> CHR ''/'' \<in> set v \<and>
        (\<forall>w. repo_get repo ''name'' = Some w \<longrightarrow> CHR ''/'' \<notin> set w))"
    by (simp add: less_Suc_eq ex_disj_distrib conj_disj_distribR)
  also have "\<dots> \<longleftrightarrow> CHR ''/'' \<in> set v \<and>
     (repo_name repo = Some v \<or>
      (\<forall>w. repo_name repo = Some w \<longrightarrow> CHR ''/'' \<notin> set w) \<and> repo_id repo = Some v)"
    unfolding n i by blast
  finally show ?thesis .
qed

lemma api_url_step_iff:
  "api_url_step repo = Some g \<longleftrightarrow> (\<exists>u. api_url_of repo u \<and> first_repos_segment u g)"
proof -
  define a where "a = py_or (map_of (repo_properties repo) ''apiUrl'') (repo_get repo ''url'')"
  have src: "(truthy a \<and> or_empty a = u) \<longleftrightarrow> api_url_of repo u" for u
    unfolding a_def api_url_of_def
    by (cases "map_of (repo_properties repo) ''apiUrl''"; cases "repo_url repo")
       (auto simp: py_or_def truthy_def or_empty_def repo_get_def)
  have "api_url_step repo = Some g \<longleftrightarrow> truthy a \<and> search_repos (or_empty a) = Some g"
    by (simp add: api_url_step_def Let_def a_def)
  also have "\<dots> \<longleftrightarrow> (\<exists>u. (truthy a \<and> or_empty a = u) \<and> first_repos_segment u g)"
    by (auto simp: search_repos_iff)
  finally show ?thesis unfolding src .
qed

lemma clone_url_step_iff:
  "clone_url_step L repo = Some p \<longleftrightarrow>
     (\<exists>c path. map_of (repo_properties repo) ''cloneUrl'' = Some c \<and> c \<noteq> [] \<and>
        stripped_of_slashes (urlparse_path L c) path \<and>
        (path = p @ ''.git'' \<or> p = path \<and> \<not> (\<exists>q. path = q @ ''.git'')) \<and>
        CHR ''/'' \<in> set p)"
proof (cases "map_of (repo_properties repo) ''cloneUrl''")
  case None
  then show ?thesis by (simp add: clone_url_step_def truthy_def)
next
  case (Some c)
  define path where "path = strip_slash (urlparse_path L c)"
  define p' where "p' = (if endswith path ''.git'' then take (length path - 4) path else path)"
  have st: "stripped_of_slashes (urlparse_path L c) x \<longleftrightarrow> x = path" for x
    unfolding path_def using strip_slash_iff [of "urlparse_path L c" x] by auto
  have pp: "(path = p @ ''.git'' \<or> p = path \<and> \<not> (\<exists>q. path = q @ ''.git'')) \<longleftrightarrow> p = p'"
  proof (cases "endswith path ''.git''")
    case True
    then obtain q where q: "path = q @ ''.git''" unfolding endswith_iff by blast
    then have "p' = q" using True by (simp add: p'_def)
    with q show ?thesis by auto
  next
    case False
    then have "\<not> (\<exists>q. path = q @ ''.git'')" unfolding endswith_iff .
    with False show ?thesis by (auto simp: p'_def)
  qed
  have "clone_url_step L repo = Some p \<longleftrightarrow> c \<noteq> [] \<and> CHR ''/'' \<in> set p' \<and> p = p'"
    using Some
    by (auto simp: clone_url_step_def Let_def truthy_def or_empty_def path_def p'_def
        str_contains_single)
  also have "\<dots> \<longleftrightarrow> (\<exists>c' x. Some c = Some c' \<and> c' \<noteq> [] \<and>
        stripped_of_slashes (urlparse_path L c') x \<and>
        (x = p @ ''.git'' \<or> p = x \<and> \<not> (\<exists>q. x = q @ ''.git'')) \<and>
        CHR ''/'' \<in> set p)"
    using st pp by auto
  finally show ?thesis unfolding Some .
qed

lemma api_url_step_first_segment:
  assumes "api_url_of repo u" and "u = pre @ ''/repos/'' @ owner @ ''/'' @ name @ rest"
    and "slash_free_run owner" and "slash_free_run name" and "rest = [] \<or> hd rest = CHR ''/''"
    and "\<not> str_contains ''/repos/'' (pre @ ''/repos'')"
  shows "api_url_step repo = Some (owner @ ''/'' @ name)"
proof -
  have "repos_segment_at u (length pre) (owner @ ''/'' @ name)"
    unfolding repos_segment_at_def using assms(2-5) by auto
  moreover have "\<forall>j<length pre. \<forall>g'. \<not> repos_segment_at u j g'"
    unfolding assms(2) using no_earlier_repos_segment [OF assms(6)] by blast
  ultimately have "first_repos_segment u (owner @ ''/'' @ name)"
    unfolding first_repos_segment_def by blast
  with assms(1) show ?thesis unfolding api_url_step_iff by blast
qed

lemma clone_only_resolves:
  assumes "repo_properties repo = [(''cloneUrl'', U)]" and "U \<noteq> []" and "repo_url repo = None"
    and "urlparse_path L U = ''/acme/app.git''"
  shows "extract_owner_repo L repo = Some ''acme/app''"
proof -
  have ne: "repo \<noteq> empty_repository" using assms(1) by (auto simp: empty_repository_def)
  have f: "full_name_step repo = None"
    using assms(1) by (simp add: full_name_step_def truthy_def)
  have a: "api_url_step repo = None"
    using assms(1,3) by (simp add: api_url_step_def py_or_def truthy_def repo_get_def)
  have c: "clone_url_step L repo = Some ''acme/app''"
    using assms(1,2,4)
    by (simp add: clone_url_step_def truthy_def or_empty_def strip_slash_def rstrip_slash_def
        endswith_def)
  show ?thesis using ne f a c by (simp add: extract_owner_repo_def)
qed

text \<open>
  C8. The identity used for a GitHub lookup is the first result among: the override,
  the full-name step, the API URL step, the clone URL step, the name or id step. The
  full-name step gives the value of the first of the four full-name properties that
  holds a slash; the API URL step gives \<open>owner/repo\<close> of the leftmost
  \<open>/repos/owner/repo\<close> segment of the API URL, and does so for every URL whose first
  \<open>/repos/\<close> starts such a segment; the clone URL step gives the path of the clone URL
  without the slashes at its ends and without a final \<open>.git\<close>, if a slash is left in
  it; the last step gives the \<open>name\<close>, else the \<open>id\<close>, that holds a slash. Each step
  gives a result exactly in these cases. A descriptor whose only property is the clone
  URL \<open>https://github.com/acme/app.git\<close> and that has no \<open>url\<close> resolves to
  \<open>acme/app\<close>, given that \<open>urlparse\<close> finds the path \<open>/acme/app.git\<close> in that URL, and
  its commit URL is the one on \<open>api.github.com\<close>, as for every descriptor without an
  \<open>apiUrl\<close> property.
\<close>

theorem owner_repo_first_match_wins:
  "py_or override (extract_owner_repo L repo) =
     first_some [if truthy override then override else None, full_name_step repo,
                 api_url_step repo, clone_url_step L repo, name_id_step repo] \<and>
   (\<forall>v. full_name_step repo = Some v \<longleftrightarrow>
      (\<exists>i<4. map_of (repo_properties repo)
                ([''fullName'', ''full_name'', ''repoFullName'', ''repositoryFullName''] ! i) = Some v \<and>
             CHR ''/'' \<in> set v \<and>
             (\<forall>j<i. \<forall>w. map_of (repo_properties repo)
                          ([''fullName'', ''full_name'', ''repoFullName'', ''repositoryFullName''] ! j)
                          = Some w \<longrightarrow> CHR ''/'' \<notin> set w))) \<and>
   (\<forall>g. api_url_step repo = Some g \<longleftrightarrow> (\<exists>u. api_url_of repo u \<and> first_repos_segment u g)) \<and>
   (\<forall>u pre owner name rest.
      api_url_of repo u \<and> u = pre @ ''/repos/'' @ owner @ ''/'' @ name @ rest \<and>
      slash_free_run owner \<and> slash_free_run name \<and> (rest = [] \<or> hd rest = CHR ''/'') \<and>
      \<not> str_contains ''/repos/'' (pre @ ''/repos'') \<longrightarrow>
        api_url_step repo = Some (owner @ ''/'' @ name)) \<and>
   (\<forall>p. clone_url_step L repo = Some p \<longleftrightarrow>
      (\<exists>c path. map_of (repo_properties repo) ''cloneUrl'' = Some c \<and> c \<noteq> [] \<and>
         stripped_of_slashes (urlparse_path L c) path \<and>
         (path = p @ ''.git'' \<or> p = path \<and> \<not> (\<exists>q. path = q @ ''.git'')) \<and>
         CHR ''/'' \<in> set p)) \<and>
   (\<forall>v. name_id_step repo = Some v \<longleftrightarrow>
      CHR ''/'' \<in> set v \<and>
      (repo_name repo = Some v \<or>
       (\<forall>w. repo_name repo = Some w \<longrightarrow> CHR ''/'' \<notin> set w) \<and> repo_id repo = Some v)) \<and>
   (repo_properties repo = [(''cloneUrl'', ''https://github.com/acme/app.git'')] \<and>
    repo_url repo = None \<and>
    urlparse_path L ''https://github.com/acme/app.git'' = ''/acme/app.git'' \<longrightarrow>
      extract_owner_repo L repo = Some ''acme/app'' \<and>
      github_commit_api ''acme/app'' sha (repo_properties repo) =
        ''https://api.github.com/repos/acme/app/commits/'' @ sha) \<and>
   (\<not> truthy (map_of props ''apiUrl'') \<longrightarrow>
      github_commit_api owner_repo sha' props =
        ''https://api.github.com/repos/'' @ owner_repo @ ''/commits/'' @ sha')"
proof (intro conjI allI impI)
  show "py_or override (extract_owner_repo L repo) =
     first_some [if truthy override then override else None, full_name_step repo,
                 api_url_step repo, clone_url_step L repo, name_id_step repo]"
    by (rule extract_owner_repo_order)
next
  fix v
  show "full_name_step repo = Some v \<longleftrightarrow>
      (\<exists>i<4. map_of (repo_properties repo)
                ([''fullName'', ''full_name'', ''repoFullName'', ''repositoryFullName''] ! i) = Some v \<and>
             CHR ''/'' \<in> set v \<and>
             (\<forall>j<i. \<forall>w. map_of (repo_properties repo)
                          ([''fullName'', ''full_name'', ''repoFullName'', ''repositoryFullName''] ! j)
                          = Some w \<longrightarrow> CHR ''/'' \<notin> set w))"
    by (rule full_name_step_iff)
next
  fix g
  show "api_url_step repo = Some g \<longleftrightarrow> (\<exists>u. api_url_of repo u \<and> first_repos_segment u g)"
    by (rule api_url_step_iff)
next
  fix u pre owner name rest
  assume "api_url_of repo u \<and> u = pre @ ''/repos/'' @ owner @ ''/'' @ name @ rest \<and>
      slash_free_run owner \<and> slash_free_run name \<and> (rest = [] \<or> hd rest = CHR ''/'') \<and>
      \<not> str_contains ''/repos/'' (pre @ ''/repos'')"
  then show "api_url_step repo = Some (owner @ ''/'' @ name)"
    using api_url_step_first_segment by blast
next
  fix p
  show "clone_url_step L repo = Some p \<longleftrightarrow>
      (\<exists>c path. map_of (repo_properties repo) ''cloneUrl'' = Some c \<and> c \<noteq> [] \<and>
         stripped_of_slashes (urlparse_path L c) path \<and>
         (path = p @ ''.git'' \<or> p = path \<and> \<not> (\<exists>q. path = q @ ''.git'')) \<and>
         CHR ''/'' \<in> set p)"
    by (rule clone_url_step_iff)
next
  fix v
  show "name_id_step repo = Some v \<longleftrightarrow>
      CHR ''/'' \<in> set v \<and>
      (repo_name repo = Some v \<or>
       (\<forall>w. repo_name repo = Some w \<longrightarrow> CHR ''/'' \<notin> set w) \<and> repo_id repo = Some v)"
    by (rule name_id_step_iff)
next
  assume h: "repo_properties repo = [(''cloneUrl'', ''https://github.com/acme/app.git'')] \<and>
    repo_url repo = None \<and>
    urlparse_path L ''https://github.com/acme/app.git'' = ''/acme/app.git''"
  then have p1: "repo_properties repo = [(''cloneUrl'', ''https://github.com/acme/app.git'')]"
    and p3: "repo_url repo = None"
    and p4: "urlparse_path L ''https://github.com/acme/app.git'' = ''/acme/app.git''"
    by blast+
  have p2: "''https://github.com/acme/app.git'' \<noteq> []" by simp
  show "extract_owner_repo L repo = Some ''acme/app''"
    by (rule clone_only_resolves [OF p1 p2 p3 p4])
  from h show "github_commit_api ''acme/app'' sha (repo_properties repo) =
        ''https://api.github.com/repos/acme/app/commits/'' @ sha"
    by (simp add: github_commit_api_def truthy_def)
next
  assume "\<not> truthy (map_of props ''apiUrl'')"
  then show "github_commit_api owner_repo sha' props =
        ''https://api.github.com/repos/'' @ owner_repo @ ''/commits/'' @ sha'"
    by (simp add: github_commit_api_def)
qed

theorem owner_repo_first_match_wins_witness:
  "py_or (Some ''o/r'') (extract_owner_repo sample_lib full_name_repo) = Some ''o/r'' \<and>
   py_or None (extract_owner_repo sample_lib full_name_repo) = Some ''acme/app'' \<and>
   py_or None (extract_owner_repo sample_lib api_url_repo) = Some ''acme/app'' \<and>
   py_or None (extract_owner_repo sample_lib named_repo) = Some ''acme/app'' \<and>
   py_or None (extract_owner_repo sample_lib clone_only_repo) = Some ''acme/app'' \<and>
   github_commit_api ''acme/app'' ''abc123'' (repo_properties clone_only_repo) =
     ''https://api.github.com/repos/acme/app/commits/abc123''"
proof -
  note T = owner_repo_first_match_wins
  note order = T [THEN conjunct1]
  note full = T [THEN conjunct2, THEN conjunct1, rule_format]
  note api = T [THEN conjunct2, THEN conjunct2, THEN conjunct2, THEN conjunct1, rule_format]
  note named = T [THEN conjunct2, THEN conjunct2, THEN conjunct2, THEN conjunct2, THEN conjunct2,
      THEN conjunct1, rule_format]
  note clone = T [THEN conjunct2, THEN conjunct2, THEN conjunct2, THEN conjunct2, THEN conjunct2,
      THEN conjunct2, THEN conjunct1, rule_format]
  have 1: "py_or (Some ''o/r'') (extract_owner_repo sample_lib full_name_repo) = Some ''o/r''"
    using order [of "Some ''o/r''" sample_lib full_name_repo] by (simp add: truthy_def)
  have "\<exists>i<4. map_of (repo_properties full_name_repo)
                ([''fullName'', ''full_name'', ''repoFullName'', ''repositoryFullName''] ! i)
                = Some ''acme/app'' \<and>
             CHR ''/'' \<in> set ''acme/app'' \<and>
             (\<forall>j<i. \<forall>w. map_of (repo_properties full_name_repo)
                          ([''fullName'', ''full_name'', ''repoFullName'', ''repositoryFullName''] ! j)
                          = Some w \<longrightarrow> CHR ''/'' \<notin> set w)"
    by (intro exI [of _ 0]) (simp add: full_name_repo_def)
  then have "full_name_step full_name_repo = Some ''acme/app''"
    by (rule full [THEN iffD2])
  then have 2: "py_or None (extract_owner_repo sample_lib full_name_repo) = Some ''acme/app''"
    using order [of None sample_lib full_name_repo] by (simp add: truthy_def)
  have "api_url_of api_url_repo ''https://api.github.com/repos/acme/app'' \<and>
      ''https://api.github.com/repos/acme/app'' =
        ''https://api.github.com'' @ ''/repos/'' @ ''acme'' @ ''/'' @ ''app'' @ [] \<and>
      slash_free_run ''acme'' \<and> slash_free_run ''app'' \<and> ([] = [] \<or> hd [] = CHR ''/'') \<and>
      \<not> str_contains ''/repos/'' (''https://api.github.com'' @ ''/repos'')"
    by (simp add: api_url_of_def api_url_repo_def slash_free_run_def)
  then have "api_url_step api_url_repo = Some (''acme'' @ ''/'' @ ''app'')"
    by (rule api)
  moreover have "full_name_step api_url_repo = None"
    by (simp add: full_name_step_def api_url_repo_def truthy_def)
  ultimately have 3: "py_or None (extract_owner_repo sample_lib api_url_repo) = Some ''acme/app''"
    using order [of None sample_lib api_url_repo] by (simp add: truthy_def)
  have "CHR ''/'' \<in> set ''acme/app'' \<and>
      (repo_name named_repo = Some ''acme/app'' \<or>
       (\<forall>w. repo_name named_repo = Some w \<longrightarrow> CHR ''/'' \<notin> set w) \<and>
       repo_id named_repo = Some ''acme/app'')"
    by (simp add: named_repo_def)
  then have "name_id_step named_repo = Some ''acme/app''"
    by (rule named [THEN iffD2])
  moreover have "full_name_step named_repo = None" "api_url_step named_repo = None"
    "clone_url_step sample_lib named_repo = None"
    by (simp_all add: full_name_step_def api_url_step_def clone_url_step_def named_repo_def
        py_or_def repo_get_def truthy_def)
  ultimately have 4: "py_or None (extract_owner_repo sample_lib named_repo) = Some ''acme/app''"
    using order [of None sample_lib named_repo] by (simp add: truthy_def)
  have "repo_properties clone_only_repo = [(''cloneUrl'', ''https://github.com/acme/app.git'')] \<and>
    repo_url clone_only_repo = None \<and>
    urlparse_path sample_lib ''https://github.com/acme/app.git'' = ''/acme/app.git''"
    by (simp add: clone_only_repo_def sample_lib_def)
  then have c: "extract_owner_repo sample_lib clone_only_repo = Some ''acme/app'' \<and>
      github_commit_api ''acme/app'' ''abc123'' (repo_properties clone_only_repo) =
        ''https://api.github.com/repos/acme/app/commits/'' @ ''abc123''"
    by (rule clone)
  then have 5: "py_or None (extract_owner_repo sample_lib clone_only_repo) = Some ''acme/app''"
    by (simp add: py_or_def truthy_def)
  from 1 2 3 4 5 c show ?thesis by simp
qed

subsection \<open>Failed commit lookups\<close>

lemma github_request_failure_is_unresolved:
  assumes "\<forall>url tok. case github_get E url tok of
                       Inl e \<Rightarrow> is_RequestException e
                     | Inr r \<Rightarrow> status_code r \<noteq> 200"
  shows "snd (github_commit_time L E gh_token gh_repo_override verbose b repo sha) = Inr None"
proof -
  define url where
    "url = github_commit_api (or_empty (py_or gh_repo_override (extract_owner_repo L repo))) sha
             (repo_properties repo)"
  define tok where "tok = (if truthy gh_token then gh_token else None)"
  have "case github_get E url tok of Inl e \<Rightarrow> is_RequestException e | Inr r \<Rightarrow> status_code r \<noteq> 200"
    using assms by blast
  then show ?thesis
    unfolding github_commit_time_def Let_def url_def [symmetric] tok_def [symmetric]
    by (cases "github_get E url tok") auto
qed

lemma azure_http_error_is_unresolved:
  assumes "\<forall>rid s. \<exists>code. get_ado_commit E rid s = Inl (HTTPError code)"
  shows "snd (azure_commit_time L E verbose b repo sha) = Inr None"
proof -
  obtain code where "get_ado_commit E (or_empty (repo_get repo ''id'')) sha = Inl (HTTPError code)"
    using assms by blast
  then show ?thesis
    unfolding azure_commit_time_def Let_def by auto
qed

text \<open>
  C2. The claim fails on the code for the Azure Repos variant: its handler catches
  \<open>requests.HTTPError\<close> only, so a connection error of the commit request leaves
  \<open>get_commit_time\<close> as an exception. The GitHub variant, whose handler catches
  \<open>requests.RequestException\<close>, returns \<open>None\<close> on a timeout.
\<close>

theorem azure_transport_error_propagates:
  "get_ado_commit sample_env ''r1'' ''abc123'' = Inl ConnectionError \<and>
   get_commit_time sample_lib sample_env None None False azure_build = ([], Inl ConnectionError) \<and>
   github_get sample_env ''https://api.github.com/repos/acme/app/commits/abc123'' None = Inl Timeout \<and>
   get_commit_time sample_lib sample_env None None False github_build = ([], Inr None)"
  by (simp add: get_commit_time_def azure_commit_time_def github_commit_time_def
      extract_owner_repo_def full_name_step_def api_url_step_def clone_url_step_def
      github_commit_api_def empty_repository_def strip_slash_def rstrip_slash_def endswith_def
      sample_env_def sample_lib_def azure_build_def github_build_def clone_only_repo_def
      repo_get_def log_if_def py_or_def truthy_def or_empty_def lower_def char_lower_def)

subsection \<open>Change failure rate\<close>

lemma cfr_pct_returns:
  "cfr_pct F fails deps =
     Inr (if deps \<noteq> [] then fmul F (truediv F (int (length fails)) (int (length deps))) (f_hundred F)
          else f_zero F)"
  by (simp add: cfr_pct_def py_truediv_def)

text \<open>
  C6. Computing the rate never divides by zero. The summary row reports the number of
  Deployments as \<open>totalDeployments\<close> and the number of FailureEvents as
  \<open>failedChanges\<close>; its \<open>changeFailureRatePct\<close> is
  \<open>round(failedChanges / totalDeployments * 100.0, 2)\<close> when there is a Deployment
  and \<open>round(0.0, 2)\<close>, that is \<open>0.0\<close>, when there is none.
\<close>

theorem change_failure_rate_formula:
  "(\<exists>x. cfr_pct F (failures st) (deployments st) = Inr x) \<and>
   (\<forall>lg out. compute_metrics L F E A builds st = (lg, Inr out) \<longrightarrow>
      out_deployments out = deployments st \<and> out_failures out = failures st \<and>
      totalDeployments (out_cfr out) = length (deployments st) \<and>
      failedChanges (out_cfr out) = length (failures st) \<and>
      (0 < length (deployments st) \<longrightarrow>
         changeFailureRatePct (out_cfr out) =
           fround F (fmul F (truediv F (int (length (failures st))) (int (length (deployments st))))
                            (f_hundred F)) 2) \<and>
      (length (deployments st) = 0 \<longrightarrow>
         changeFailureRatePct (out_cfr out) = fround F (f_zero F) 2 \<and>
         (fround F (f_zero F) 2 = f_zero F \<longrightarrow> changeFailureRatePct (out_cfr out) = f_zero F)))"
  by (auto simp: cfr_pct_returns compute_metrics_def cfr_summary_def split: prod.splits sum.splits)

theorem change_failure_rate_formula_witness:
  "\<exists>lg out. compute_metrics sample_lib sample_float sample_env sample_args [] four_deploys_one_failure
               = (lg, Inr out) \<and>
             totalDeployments (out_cfr out) = 4 \<and> failedChanges (out_cfr out) = 1 \<and>
             changeFailureRatePct (out_cfr out) = 25"
proof -
  obtain out where ret:
    "compute_metrics sample_lib sample_float sample_env sample_args [] four_deploys_one_failure
       = ([], Inr out)"
    by (simp add: compute_metrics_def cfr_pct_returns)
  have pos: "0 < length (deployments four_deploys_one_failure)"
    by (simp add: four_deploys_one_failure_def)
  from change_failure_rate_formula
         [of sample_float four_deploys_one_failure sample_lib sample_env sample_args "[]"] ret pos
  have "totalDeployments (out_cfr out) = length (deployments four_deploys_one_failure)"
    and "failedChanges (out_cfr out) = length (failures four_deploys_one_failure)"
    and "changeFailureRatePct (out_cfr out) =
           fround sample_float
             (fmul sample_float
                (truediv sample_float (int (length (failures four_deploys_one_failure)))
                   (int (length (deployments four_deploys_one_failure))))
                (f_hundred sample_float)) 2"
    by blast+
  then have "totalDeployments (out_cfr out) = 4 \<and> failedChanges (out_cfr out) = 1 \<and>
             changeFailureRatePct (out_cfr out) = 25"
    by (simp add: four_deploys_one_failure_def sample_float_def py_round_def Let_def)
  with ret show ?thesis by blast
qed

subsection \<open>Lead time\<close>

lemma floor_total_seconds: "\<lfloor>total_seconds us\<rfloor> = us div 1000000"
proof -
  have "total_seconds us = of_int us / of_int 1000000"
    by (simp add: total_seconds_def)
  then show ?thesis by (simp only: floor_divide_of_int_eq)
qed

lemma total_seconds_neg_iff: "total_seconds us < 0 \<longleftrightarrow> us < 0"
  by (simp add: total_seconds_def divide_less_0_iff)

lemma total_seconds_minus: "total_seconds (- us) = - total_seconds us"
  by (simp add: total_seconds_def)

lemma py_int_total_seconds:
  "py_int (total_seconds us) = (if us < 0 then - ((- us) div 1000000) else us div 1000000)"
proof (cases "us < 0")
  case True
  have "\<lceil>total_seconds us\<rceil> = - \<lfloor>total_seconds (- us)\<rfloor>"
    by (simp add: ceiling_def total_seconds_minus)
  with True show ?thesis
    by (simp add: py_int_def total_seconds_neg_iff floor_total_seconds)
next
  case False
  then show ?thesis
    by (simp add: py_int_def total_seconds_neg_iff floor_total_seconds)
qed

lemma frac_total_seconds:
  "total_seconds us - of_int (us div 1000000) = of_int (us mod 1000000) / 1000000"
proof -
  have "us = 1000000 * (us div 1000000) + us mod 1000000" by simp
  then have "(of_int us :: rat) = 1000000 * of_int (us div 1000000) + of_int (us mod 1000000)"
    by (metis of_int_add of_int_mult of_int_numeral)
  then show ?thesis by (simp add: total_seconds_def field_simps)
qed

lemma py_round_total_seconds:
  "py_round (total_seconds us) =
     (let q = us div 1000000; m = us mod 1000000
      in if m < 500000 then q else if 500000 < m then q + 1 else if even q then q else q + 1)"
proof -
  have a: "(of_int (us mod 1000000) / 1000000 < (1 / 2 :: rat)) \<longleftrightarrow> us mod 1000000 < 500000"
    by (simp add: field_simps)
  have b: "((1 / 2 :: rat) < of_int (us mod 1000000) / 1000000) \<longleftrightarrow> 500000 < us mod 1000000"
    by (simp add: field_simps)
  show ?thesis
    by (simp only: py_round_def Let_def floor_total_seconds frac_total_seconds a b)
qed

lemma lead_loop_rows:
  "lead_loop L F E A deps bs rows = (lg, Inr out) \<Longrightarrow>
   \<exists>new. out = rows @ new \<and>
     (\<forall>r\<in>set new. \<exists>b\<in>set bs. \<exists>dep ct lg'.
         dep_by_build deps (build_id b) = Some dep \<and>
         get_commit_time L E (arg_github_token A) (arg_github_repo A) (arg_verbose A) b
           = (lg', Inr (Some ct)) \<and>
         r = make_lead_row L F A b dep ct)"
proof (induction bs arbitrary: rows lg out)
  case Nil
  then show ?case by simp
next
  case (Cons b bs)
  show ?case
  proof (cases "dep_by_build deps (build_id b)")
    case None
    with Cons.prems have "lead_loop L F E A deps bs rows = (lg, Inr out)" by simp
    from Cons.IH [OF this] show ?thesis by auto
  next
    case (Some dep)
    obtain lg1 res where g:
      "get_commit_time L E (arg_github_token A) (arg_github_repo A) (arg_verbose A) b = (lg1, res)"
      by (cases "get_commit_time L E (arg_github_token A) (arg_github_repo A) (arg_verbose A) b")
    from Cons.prems Some g obtain ct where res: "res = Inr ct"
      by (cases res) auto
    define rows' where
      "rows' = (case ct of None \<Rightarrow> rows | Some c \<Rightarrow> rows @ [make_lead_row L F A b dep c])"
    obtain lg2 r2 where rec: "lead_loop L F E A deps bs rows' = (lg2, r2)"
      by (cases "lead_loop L F E A deps bs rows'")
    from Cons.prems Some g res rec have r2: "r2 = Inr out"
      by (simp add: rows'_def)
    from Cons.IH [OF rec [unfolded r2]] obtain new where new: "out = rows' @ new"
      "\<forall>r\<in>set new. \<exists>b\<in>set bs. \<exists>dep ct lg'.
         dep_by_build deps (build_id b) = Some dep \<and>
         get_commit_time L E (arg_github_token A) (arg_github_repo A) (arg_verbose A) b
           = (lg', Inr (Some ct)) \<and>
         r = make_lead_row L F A b dep ct"
      by blast
    show ?thesis
    proof (cases ct)
      case None
      with new show ?thesis by (auto simp: rows'_def)
    next
      case (Some c)
      have "out = rows @ (make_lead_row L F A b dep c # new)"
        using new(1) Some by (simp add: rows'_def)
      moreover have "\<forall>r\<in>set (make_lead_row L F A b dep c # new). \<exists>b'\<in>set (b # bs). \<exists>dep ct lg'.
         dep_by_build deps (build_id b') = Some dep \<and>
         get_commit_time L E (arg_github_token A) (arg_github_repo A) (arg_verbose A) b'
           = (lg', Inr (Some ct)) \<and>
         r = make_lead_row L F A b' dep ct"
        using new(2) g res Some \<open>dep_by_build deps (build_id b) = Some dep\<close> by auto
      ultimately show ?thesis by blast
    qed
  qed
qed

text \<open>
  C3, as amended. Every lead-time row belongs to a build that has a Deployment and a
  resolved commit time; its \<open>leadTimeSeconds\<close> is
  \<open>int((deployTime - commitTime).total_seconds())\<close>, the elapsed seconds truncated
  toward zero (negative when the commit is later than the deployment), and this equals
  \<open>round((deployTime - commitTime).total_seconds())\<close> whenever the two times differ by
  a whole number of seconds.
\<close>

theorem lead_time_seconds_truncated:
  assumes "lead_loop L F E A deps builds [] = (lg, Inr rows)" and "r \<in> set rows"
  shows "\<exists>b\<in>set builds. \<exists>dep ct lg'.
           dep_by_build deps (build_id b) = Some dep \<and>
           get_commit_time L E (arg_github_token A) (arg_github_repo A) (arg_verbose A) b
             = (lg', Inr (Some ct)) \<and>
           lr_buildId r = build_id b \<and>
           lr_commitTimeUtc r = isoformat L ct \<and>
           lr_deployTimeUtc r = isoformat L (ev_when dep) \<and>
           lr_leadTimeSeconds r = py_int (total_seconds (ev_when dep - ct)) \<and>
           lr_leadTimeSeconds r =
             (if ev_when dep < ct then - ((ct - ev_when dep) div 1000000)
              else (ev_when dep - ct) div 1000000) \<and>
           ((ev_when dep - ct) mod 1000000 = 0 \<longrightarrow>
              lr_leadTimeSeconds r = py_round (total_seconds (ev_when dep - ct)))"
proof -
  from lead_loop_rows [OF assms(1)] assms(2) obtain b dep ct lg' where
    b: "b \<in> set builds" "dep_by_build deps (build_id b) = Some dep"
    "get_commit_time L E (arg_github_token A) (arg_github_repo A) (arg_verbose A) b
       = (lg', Inr (Some ct))"
    "r = make_lead_row L F A b dep ct"
    by auto
  have s: "lr_leadTimeSeconds r = py_int (total_seconds (ev_when dep - ct))"
    using b(4) by (simp add: make_lead_row_def Let_def elapsed_secs_def)
  have "lr_buildId r = build_id b" "lr_commitTimeUtc r = isoformat L ct"
    "lr_deployTimeUtc r = isoformat L (ev_when dep)"
    using b(4) by (simp_all add: make_lead_row_def Let_def fmtiso_def)
  moreover have "lr_leadTimeSeconds r =
             (if ev_when dep < ct then - ((ct - ev_when dep) div 1000000)
              else (ev_when dep - ct) div 1000000)"
    unfolding s py_int_total_seconds by simp
  moreover have "(ev_when dep - ct) mod 1000000 = 0 \<longrightarrow>
              lr_leadTimeSeconds r = py_round (total_seconds (ev_when dep - ct))"
    unfolding s py_int_total_seconds py_round_total_seconds Let_def
    by (auto simp: zdiv_zminus1_eq_if)
  ultimately show ?thesis using b(1,2,3) s by blast
qed

lemma lead_env_commit_time:
  "get_commit_time sample_lib lead_env None None v github_build
     = ([], Inr (Some 1704103200000000))"
  by (simp add: get_commit_time_def github_commit_time_def commit_date_def utc_def
      extract_owner_repo_def full_name_step_def api_url_step_def clone_url_step_def
      github_commit_api_def empty_repository_def strip_slash_def rstrip_slash_def endswith_def
      lead_env_def sample_lib_def github_build_def clone_only_repo_def replace_Z_def
      astimezone_utc_def repo_get_def log_if_def py_or_def truthy_def or_empty_def lower_def
      char_lower_def)

lemma lead_env_rows:
  "lead_loop sample_lib sample_float lead_env sample_args
      [\<lparr>ev_buildId = 9, ev_when = 1704103201600000\<rparr>] [github_build] []
     = ([], Inr [make_lead_row sample_lib sample_float sample_args github_build
                   \<lparr>ev_buildId = 9, ev_when = 1704103201600000\<rparr> 1704103200000000])"
proof -
  have a: "arg_github_token sample_args = None" "arg_github_repo sample_args = None"
    "arg_verbose sample_args = False" "build_id github_build = 9"
    by (simp_all add: sample_args_def github_build_def)
  show ?thesis
    by (simp add: a dep_by_build_def lead_env_commit_time)
qed

theorem lead_time_seconds_truncated_witness:
  "\<exists>r. snd (lead_loop sample_lib sample_float lead_env sample_args
              [\<lparr>ev_buildId = 9, ev_when = 1704103201600000\<rparr>] [github_build] []) = Inr [r] \<and>
        lr_buildId r = 9 \<and> lr_leadTimeSeconds r = 1"
proof -
  define r where "r = make_lead_row sample_lib sample_float sample_args github_build
                   \<lparr>ev_buildId = 9, ev_when = 1704103201600000\<rparr> 1704103200000000"
  have ret: "lead_loop sample_lib sample_float lead_env sample_args
      [\<lparr>ev_buildId = 9, ev_when = 1704103201600000\<rparr>] [github_build] [] = ([], Inr [r])"
    unfolding r_def by (rule lead_env_rows)
  have mem: "r \<in> set [r]" by simp
  from lead_time_seconds_truncated [OF ret mem] obtain dep ct lg' where
    d: "dep_by_build [\<lparr>ev_buildId = 9, ev_when = 1704103201600000\<rparr>] (build_id github_build) = Some dep"
    "get_commit_time sample_lib lead_env (arg_github_token sample_args)
       (arg_github_repo sample_args) (arg_verbose sample_args) github_build = (lg', Inr (Some ct))"
    "lr_buildId r = build_id github_build"
    "lr_leadTimeSeconds r =
       (if ev_when dep < ct then - ((ct - ev_when dep) div 1000000)
        else (ev_when dep - ct) div 1000000)"
    by auto
  from d(1) have dep: "dep = \<lparr>ev_buildId = 9, ev_when = 1704103201600000\<rparr>"
    by (simp add: dep_by_build_def github_build_def)
  from d(2) have ct: "ct = 1704103200000000"
    by (simp add: sample_args_def lead_env_commit_time)
  from d(3,4) have "lr_buildId r = 9 \<and> lr_leadTimeSeconds r = 1"
    by (simp add: dep ct github_build_def)
  with ret show ?thesis by simp
qed

text \<open>
  C3, as stated, fails: a deployment 1.6 seconds after the commit gives a row with
  \<open>leadTimeSeconds = 1\<close>, and \<open>round\<close> of the elapsed seconds is 2.
\<close>

theorem lead_time_seconds_not_rounded:
  "case_sum (\<lambda>e. []) (map lr_leadTimeSeconds)
     (snd (lead_loop sample_lib sample_float lead_env sample_args
             [\<lparr>ev_buildId = 9, ev_when = 1704103201600000\<rparr>] [github_build] [])) = [1] \<and>
   py_round (total_seconds (1704103201600000 - 1704103200000000)) = 2"
  by (simp only: lead_env_rows)
     (simp add: make_lead_row_def Let_def elapsed_secs_def py_int_total_seconds
        py_round_total_seconds)

subsection \<open>Recovery time\<close>

lemma next_success_Some:
  assumes "next_success (sort_key ev_when deps) f = Some ns"
  shows "ns \<in> set deps \<and> ev_when f < ev_when ns \<and>
         (\<forall>d\<in>set deps. ev_when f < ev_when d \<longrightarrow> ev_when ns \<le> ev_when d)"
proof -
  let ?xs = "sort_key ev_when deps"
  from assms obtain i where i: "i < length ?xs" "ev_when f < ev_when (?xs ! i)" "ns = ?xs ! i"
    "\<forall>j<i. \<not> ev_when f < ev_when (?xs ! j)"
    unfolding next_success_def find_Some_iff by blast
  have srt: "sorted (map ev_when ?xs)" by simp
  have mem: "ns \<in> set deps" using i(1,3) by (metis nth_mem set_sort)
  have "ev_when ns \<le> ev_when d" if d: "d \<in> set deps" "ev_when f < ev_when d" for d
  proof -
    from d(1) have "d \<in> set ?xs" by simp
    then obtain k where k: "k < length ?xs" "?xs ! k = d"
      unfolding in_set_conv_nth by blast
    with i(4) d(2) have "i \<le> k" by (meson not_le_imp_less)
    with srt k(1) have "map ev_when ?xs ! i \<le> map ev_when ?xs ! k"
      by (simp add: sorted_iff_nth_mono del: sorted_sort_key)
    with i k \<open>i \<le> k\<close> show ?thesis by simp
  qed
  with mem i(2,3) show ?thesis by blast
qed

lemma next_success_None:
  "next_success (sort_key ev_when deps) f = None \<longleftrightarrow> \<not> later_deployment deps f"
  unfolding next_success_def find_None_iff later_deployment_def by auto

lemma elapsed_secs_pos: "b < a \<Longrightarrow> elapsed_secs a b = (a - b) div 1000000"
  by (simp add: elapsed_secs_def py_int_total_seconds)

lemma mttr_rows_keys:
  "map (\<lambda>r. (mr_failedBuildId r, mr_failedAtUtc r))
       (concat (map (\<lambda>f. case next_success (sort_key ev_when deps) f of
                            None \<Rightarrow> []
                          | Some ns \<Rightarrow> [make_mttr_row L F A f ns]) fs))
   = map (\<lambda>f. (ev_buildId f, isoformat L (ev_when f))) (filter (later_deployment deps) fs)"
proof (induction fs)
  case Nil
  then show ?case by simp
next
  case (Cons f fs)
  show ?case
  proof (cases "next_success (sort_key ev_when deps) f")
    case None
    then have "\<not> later_deployment deps f" by (simp add: next_success_None)
    with None Cons.IH show ?thesis by simp
  next
    case (Some ns)
    then have "later_deployment deps f"
      using next_success_None [of deps f] by simp
    with Some Cons.IH show ?thesis
      by (simp add: make_mttr_row_def Let_def fmtiso_def)
  qed
qed

text \<open>
  C5. Every MTTR row pairs a FailureEvent with a Deployment of the full deployment set
  that is strictly later, with no Deployment strictly between the two, and its
  \<open>mttrSeconds\<close> is the whole seconds from the failure to that Deployment. The rows
  are, in the order of the failures' times, one for each FailureEvent that has a
  strictly later Deployment: a FailureEvent without one has no row.
\<close>

theorem mttr_pairs_nearest_later_deployment:
  "(\<forall>r\<in>set (mttr_rows_of L F A deps fails).
      \<exists>f\<in>set fails. \<exists>d\<in>set deps.
        mr_failedBuildId r = ev_buildId f \<and> mr_failedAtUtc r = isoformat L (ev_when f) \<and>
        mr_restoredBuildId r = ev_buildId d \<and> mr_restoredAtUtc r = isoformat L (ev_when d) \<and>
        ev_when f < ev_when d \<and>
        (\<forall>d'\<in>set deps. \<not> (ev_when f < ev_when d' \<and> ev_when d' < ev_when d)) \<and>
        mr_mttrSeconds r = (ev_when d - ev_when f) div 1000000) \<and>
   map (\<lambda>r. (mr_failedBuildId r, mr_failedAtUtc r)) (mttr_rows_of L F A deps fails) =
     map (\<lambda>f. (ev_buildId f, isoformat L (ev_when f)))
         (filter (later_deployment deps) (sort_key ev_when fails))"
proof
  show "\<forall>r\<in>set (mttr_rows_of L F A deps fails).
      \<exists>f\<in>set fails. \<exists>d\<in>set deps.
        mr_failedBuildId r = ev_buildId f \<and> mr_failedAtUtc r = isoformat L (ev_when f) \<and>
        mr_restoredBuildId r = ev_buildId d \<and> mr_restoredAtUtc r = isoformat L (ev_when d) \<and>
        ev_when f < ev_when d \<and>
        (\<forall>d'\<in>set deps. \<not> (ev_when f < ev_when d' \<and> ev_when d' < ev_when d)) \<and>
        mr_mttrSeconds r = (ev_when d - ev_when f) div 1000000"
  proof
    fix r assume "r \<in> set (mttr_rows_of L F A deps fails)"
    then obtain f where f1: "f \<in> set fails"
      and rin: "r \<in> set (case next_success (sort_key ev_when deps) f of
                            None \<Rightarrow> []
                          | Some ns \<Rightarrow> [make_mttr_row L F A f ns])"
      by (auto simp: mttr_rows_of_def Let_def)
    from rin obtain ns where f23:
      "next_success (sort_key ev_when deps) f = Some ns" "r = make_mttr_row L F A f ns"
      by (cases "next_success (sort_key ev_when deps) f") auto
    note f = f1 f23
    from next_success_Some [OF f(2)] have ns: "ns \<in> set deps" "ev_when f < ev_when ns"
      "\<forall>d\<in>set deps. ev_when f < ev_when d \<longrightarrow> ev_when ns \<le> ev_when d"
      by blast+
    have "mr_failedBuildId r = ev_buildId f \<and> mr_failedAtUtc r = isoformat L (ev_when f) \<and>
        mr_restoredBuildId r = ev_buildId ns \<and> mr_restoredAtUtc r = isoformat L (ev_when ns) \<and>
        mr_mttrSeconds r = (ev_when ns - ev_when f) div 1000000"
      using f(3) ns(2) by (simp add: make_mttr_row_def Let_def fmtiso_def elapsed_secs_pos)
    moreover have "\<forall>d'\<in>set deps. \<not> (ev_when f < ev_when d' \<and> ev_when d' < ev_when ns)"
      using ns(3) by fastforce
    ultimately show "\<exists>f\<in>set fails. \<exists>d\<in>set deps.
        mr_failedBuildId r = ev_buildId f \<and> mr_failedAtUtc r = isoformat L (ev_when f) \<and>
        mr_restoredBuildId r = ev_buildId d \<and> mr_restoredAtUtc r = isoformat L (ev_when d) \<and>
        ev_when f < ev_when d \<and>
        (\<forall>d'\<in>set deps. \<not> (ev_when f < ev_when d' \<and> ev_when d' < ev_when d)) \<and>
        mr_mttrSeconds r = (ev_when d - ev_when f) div 1000000"
      using f(1) ns(1,2) by blast
  qed
next
  show "map (\<lambda>r. (mr_failedBuildId r, mr_failedAtUtc r)) (mttr_rows_of L F A deps fails) =
     map (\<lambda>f. (ev_buildId f, isoformat L (ev_when f)))
         (filter (later_deployment deps) (sort_key ev_when fails))"
    unfolding mttr_rows_of_def Let_def by (rule mttr_rows_keys)
qed

theorem mttr_pairs_nearest_later_deployment_witness:
  "map (\<lambda>r. (mr_failedBuildId r, mr_restoredBuildId r, mr_mttrSeconds r))
       (mttr_rows_of sample_lib sample_float sample_args mttr_deps mttr_fails) = [(1, 2, 2)] \<and>
   filter (later_deployment mttr_deps) (sort_key ev_when mttr_fails)
     = [\<lparr>ev_buildId = 1, ev_when = 4200000\<rparr>]"
proof -
  let ?rows = "mttr_rows_of sample_lib sample_float sample_args mttr_deps mttr_fails"
  have flt: "filter (later_deployment mttr_deps) (sort_key ev_when mttr_fails)
     = [\<lparr>ev_buildId = 1, ev_when = 4200000\<rparr>]"
    by (simp add: later_deployment_def mttr_deps_def mttr_fails_def)
  from mttr_pairs_nearest_later_deployment
         [of sample_lib sample_float sample_args mttr_deps mttr_fails]
  have all: "\<forall>r\<in>set ?rows.
      \<exists>f\<in>set mttr_fails. \<exists>d\<in>set mttr_deps.
        mr_failedBuildId r = ev_buildId f \<and> mr_failedAtUtc r = isoformat sample_lib (ev_when f) \<and>
        mr_restoredBuildId r = ev_buildId d \<and> mr_restoredAtUtc r = isoformat sample_lib (ev_when d) \<and>
        ev_when f < ev_when d \<and>
        (\<forall>d'\<in>set mttr_deps. \<not> (ev_when f < ev_when d' \<and> ev_when d' < ev_when d)) \<and>
        mr_mttrSeconds r = (ev_when d - ev_when f) div 1000000"
    and keys: "map (\<lambda>r. (mr_failedBuildId r, mr_failedAtUtc r)) ?rows =
     map (\<lambda>f. (ev_buildId f, isoformat sample_lib (ev_when f)))
         (filter (later_deployment mttr_deps) (sort_key ev_when mttr_fails))"
    by blast+
  from keys flt obtain r where r: "?rows = [r]" "mr_failedBuildId r = 1"
    by (auto simp: map_eq_Cons_conv)
  with all obtain f d where fd: "f \<in> set mttr_fails" "d \<in> set mttr_deps"
    "ev_buildId f = 1" "mr_restoredBuildId r = ev_buildId d" "ev_when f < ev_when d"
    "\<forall>d'\<in>set mttr_deps. \<not> (ev_when f < ev_when d' \<and> ev_when d' < ev_when d)"
    "mr_mttrSeconds r = (ev_when d - ev_when f) div 1000000"
    by auto
  from fd(1,3) have f: "f = \<lparr>ev_buildId = 1, ev_when = 4200000\<rparr>"
    by (auto simp: mttr_fails_def)
  from fd(2,5,6) have d: "d = \<lparr>ev_buildId = 2, ev_when = 7000000\<rparr>"
    unfolding f by (auto simp: mttr_deps_def)
  from fd(4,7) have "mr_restoredBuildId r = 2" "mr_mttrSeconds r = 2"
    by (simp_all add: f d)
  with r flt show ?thesis by simp
qed

subsection \<open>Verbosity\<close>

text \<open>
  Every function returns the trace it prints beside its result; the result never
  depends on \<open>verbose\<close>.
\<close>

lemma fst_case_prod_append [simp]:
  "fst (case p of (lg2, r) \<Rightarrow> (lg @ lg2, r)) = lg @ fst p"
  by (cases p) simp

lemma snd_case_prod_append [simp]:
  "snd (case p of (lg2, r) \<Rightarrow> (lg @ lg2, r)) = snd p"
  by (cases p) simp

lemma snd_process_build:
  "snd (process_build L v dn b recs st) = snd (process_build L v' dn' b recs st)"
  by (auto simp: process_build_def Let_def split: sum.splits option.splits)

lemma snd_classify_loop:
  "snd (classify_loop L E v dn bs st) = snd (classify_loop L E v' dn' bs st)"
proof (induction bs arbitrary: st)
  case Nil
  then show ?case by simp
next
  case (Cons b bs)
  show ?case
  proof (cases "get_timeline E (build_id b)")
    case (Inl e)
    then show ?thesis by simp
  next
    case (Inr recs)
    obtain lg r where p: "process_build L v dn b recs st = (lg, r)"
      by (cases "process_build L v dn b recs st")
    obtain lg' r' where p': "process_build L v' dn' b recs st = (lg', r')"
      by (cases "process_build L v' dn' b recs st")
    from snd_process_build [of L v dn b recs st v' dn'] p p' have rr: "r' = r" by simp
    show ?thesis
    proof (cases r)
      case (Inl e)
      with Inr p p' rr show ?thesis by simp
    next
      case (Inr st')
      with \<open>get_timeline E (build_id b) = Inr recs\<close> p p' rr Cons.IH [of st'] show ?thesis
        by simp
    qed
  qed
qed

lemma snd_azure_commit_time:
  "snd (azure_commit_time L E v b repo sha) = snd (azure_commit_time L E v' b repo sha)"
  by (auto simp: azure_commit_time_def Let_def split: sum.splits)

lemma snd_github_commit_time:
  "snd (github_commit_time L E t r v b repo sha) = snd (github_commit_time L E t r v' b repo sha)"
  by (auto simp: github_commit_time_def Let_def split: sum.splits)

lemma snd_get_commit_time:
  "snd (get_commit_time L E t r v b) = snd (get_commit_time L E t r v' b)"
  using snd_azure_commit_time snd_github_commit_time
  by (auto simp: get_commit_time_def Let_def)

lemma make_lead_row_verbose [simp]:
  "make_lead_row L F (A\<lparr>arg_verbose := v\<rparr>) b dep c = make_lead_row L F A b dep c"
  by (simp add: make_lead_row_def run_base_url_def)

lemma make_mttr_row_verbose [simp]:
  "make_mttr_row L F (A\<lparr>arg_verbose := v\<rparr>) f ns = make_mttr_row L F A f ns"
  by (simp add: make_mttr_row_def run_base_url_def)

lemma snd_lead_loop:
  "snd (lead_loop L F E (A\<lparr>arg_verbose := v\<rparr>) deps bs rows) = snd (lead_loop L F E A deps bs rows)"
proof (induction bs arbitrary: rows)
  case Nil
  then show ?case by simp
next
  case (Cons b bs)
  show ?case
  proof (cases "dep_by_build deps (build_id b)")
    case None
    with Cons.IH show ?thesis by simp
  next
    case (Some dep)
    obtain lg r where g:
      "get_commit_time L E (arg_github_token A) (arg_github_repo A) v b = (lg, r)"
      by (cases "get_commit_time L E (arg_github_token A) (arg_github_repo A) v b")
    obtain lg' r' where g':
      "get_commit_time L E (arg_github_token A) (arg_github_repo A) (arg_verbose A) b = (lg', r')"
      by (cases "get_commit_time L E (arg_github_token A) (arg_github_repo A) (arg_verbose A) b")
    from snd_get_commit_time [of L E "arg_github_token A" "arg_github_repo A" v b "arg_verbose A"]
      g g' have rr: "r' = r" by simp
    show ?thesis
    proof (cases r)
      case (Inl e)
      with Some g g' rr show ?thesis by simp
    next
      case (Inr ct)
      with Some g g' rr
        Cons.IH [of "case ct of None \<Rightarrow> rows | Some c \<Rightarrow> rows @ [make_lead_row L F A b dep c]"]
      show ?thesis by (simp cong: option.case_cong)
    qed
  qed
qed

lemma snd_compute_metrics:
  "snd (compute_metrics L F E (A\<lparr>arg_verbose := v\<rparr>) builds st) = snd (compute_metrics L F E A builds st)"
proof -
  obtain lg r where l: "lead_loop L F E (A\<lparr>arg_verbose := v\<rparr>) (deployments st) builds [] = (lg, r)"
    by (cases "lead_loop L F E (A\<lparr>arg_verbose := v\<rparr>) (deployments st) builds []")
  obtain lg' r' where l': "lead_loop L F E A (deployments st) builds [] = (lg', r')"
    by (cases "lead_loop L F E A (deployments st) builds []")
  from snd_lead_loop [where L = L and F = F and E = E and A = A and v = v
      and deps = "deployments st" and bs = builds and rows = "[]"] l l'
  have "r' = r" by simp
  with l l' show ?thesis
    by (simp add: compute_metrics_def cfr_pct_returns cfr_summary_def mttr_rows_of_def
        split: sum.splits cong: option.case_cong)
qed

lemma snd_run:
  "map_option snd (run L F E (A\<lparr>arg_verbose := v\<rparr>)) = map_option snd (run L F E (A\<lparr>arg_verbose := False\<rparr>))"
proof (cases "list_builds E")
  case None
  then show ?thesis by (simp add: run_def)
next
  case (Some res)
  show ?thesis
  proof (cases res)
    case (Inl e)
    with Some show ?thesis by (simp add: run_def)
  next
    case (Inr builds)
    let ?dn = "def_names_of E (arg_defs A)"
    let ?st0 = "\<lparr>deployments = [], failures = []\<rparr>"
    obtain lg r where c: "classify_loop L E v ?dn builds ?st0 = (lg, r)"
      by (cases "classify_loop L E v ?dn builds ?st0")
    obtain lg' r' where c': "classify_loop L E False ?dn builds ?st0 = (lg', r')"
      by (cases "classify_loop L E False ?dn builds ?st0")
    from snd_classify_loop [of L E v ?dn builds ?st0 False ?dn] c c' have rr: "r' = r" by simp
    show ?thesis
    proof (cases r)
      case (Inl e)
      with Some \<open>res = Inr builds\<close> c c' rr show ?thesis by (simp add: run_def)
    next
      case (Inr st)
      have "snd (compute_metrics L F E (A\<lparr>arg_verbose := v\<rparr>) builds st)
              = snd (compute_metrics L F E (A\<lparr>arg_verbose := False\<rparr>) builds st)"
        by (simp add: snd_compute_metrics)
      with Some \<open>res = Inr builds\<close> c c' rr Inr show ?thesis
        by (simp add: run_def)
    qed
  qed
qed

text \<open>
  C9. A run with \<open>verbose\<close> true and a run with \<open>verbose\<close> false on the same servers
  and arguments end alike: both do not return, or both raise the same exception, or both
  compute the same deployments, failures, daily dictionary, summary row, lead-time rows
  and MTTR rows. Only the trace differs.
\<close>

theorem verbose_never_alters_outputs:
  "map_option snd (run L F E (A\<lparr>arg_verbose := True\<rparr>))
     = map_option snd (run L F E (A\<lparr>arg_verbose := False\<rparr>))"
  by (rule snd_run)

lemma list_builds_lead_env: "list_builds lead_env = Some (Inr [github_build])"
  unfolding list_builds_def
  by (subst list_builds_loop.simps) (simp add: lead_env_def truthy_def)

lemma classify_lead_env:
  "classify_loop sample_lib lead_env v dn [github_build] \<lparr>deployments = [], failures = []\<rparr>
     = (deploy_trace sample_lib v dn github_build 1704103201600000,
        Inr \<lparr>deployments = [\<lparr>ev_buildId = 9, ev_when = 1704103201600000\<rparr>], failures = []\<rparr>)"
  by (simp add: process_build_def has_job_def record_named_def job_result_is_def
      job_finishTime_def failed_change_of_def append_failure_def utc_def
      sample_lib_def lead_env_def github_build_def truthy_def
      or_empty_def replace_Z_def astimezone_utc_def lower_def char_lower_def)

lemma fst_compute_metrics:
  "fst (compute_metrics L F E A builds st) = fst (lead_loop L F E A (deployments st) builds [])"
  by (simp add: compute_metrics_def cfr_pct_returns split: prod.splits sum.splits)

lemma lead_env_log:
  "fst (lead_loop sample_lib sample_float lead_env (sample_args\<lparr>arg_verbose := v\<rparr>)
          [\<lparr>ev_buildId = 9, ev_when = 1704103201600000\<rparr>] [github_build] []) = []"
proof -
  have a: "arg_github_token (sample_args\<lparr>arg_verbose := v\<rparr>) = None"
    "arg_github_repo (sample_args\<lparr>arg_verbose := v\<rparr>) = None"
    "build_id github_build = 9"
    by (simp_all add: sample_args_def github_build_def)
  show ?thesis
    by (simp add: a dep_by_build_def lead_env_commit_time)
qed

theorem verbose_never_alters_outputs_witness:
  "map_option snd (run sample_lib sample_float lead_env (sample_args\<lparr>arg_verbose := True\<rparr>))
     = map_option snd (run sample_lib sample_float lead_env (sample_args\<lparr>arg_verbose := False\<rparr>)) \<and>
   map_option fst (run sample_lib sample_float lead_env (sample_args\<lparr>arg_verbose := True\<rparr>))
     \<noteq> map_option fst (run sample_lib sample_float lead_env (sample_args\<lparr>arg_verbose := False\<rparr>))"
proof
  show "map_option snd (run sample_lib sample_float lead_env (sample_args\<lparr>arg_verbose := True\<rparr>))
     = map_option snd (run sample_lib sample_float lead_env (sample_args\<lparr>arg_verbose := False\<rparr>))"
    using verbose_never_alters_outputs [of sample_lib sample_float lead_env sample_args] .
  have lg: "map_option fst (run sample_lib sample_float lead_env (sample_args\<lparr>arg_verbose := v\<rparr>))
      = Some (deploy_trace sample_lib v (def_names_of lead_env (arg_defs sample_args))
                github_build 1704103201600000)" for v
    by (simp add: run_def list_builds_lead_env classify_lead_env fst_compute_metrics lead_env_log
        del: classify_loop.simps lead_loop.simps)
  show "map_option fst (run sample_lib sample_float lead_env (sample_args\<lparr>arg_verbose := True\<rparr>))
     \<noteq> map_option fst (run sample_lib sample_float lead_env (sample_args\<lparr>arg_verbose := False\<rparr>))"
    unfolding lg by (simp add: deploy_trace_def)
qed

end
